theory Spec2Isabelle
  imports Complex_Main "HOL-Library.Sublist"
begin

section \<open>EmotiView: the sentiment service and the batch loop\<close>

text \<open>
  A shallow embedding of \<^verbatim>\<open>services/geminiService.ts\<close> (response cleaning,
  normalisation, error classification) and of the application component
  (\<^verbatim>\<open>processBatch\<close>, \<^verbatim>\<open>handleFileUpload\<close>, \<^verbatim>\<open>downloadCSV\<close>).

  Strings are byte strings: a JavaScript string is read as its UTF-8 encoding (a lone
  surrogate as the three bytes of its code point). Every character the code looks for is
  ASCII or white space, and a byte sequence that encodes one of them occurs at the front,
  at the end or inside a string exactly where the character does.
\<close>

subsection \<open>String primitives of the JavaScript library\<close>

text \<open>
  The white space \<^verbatim>\<open>trim\<close> removes: the code points of WhiteSpace and LineTerminator of
  ECMAScript (U+0009 to U+000D, U+0020, U+00A0, U+1680, U+2000 to U+200A, U+2028, U+2029,
  U+202F, U+205F, U+3000, U+FEFF), each as its UTF-8 bytes.
\<close>

definition WHITE_SPACE :: "string list" where
  "WHITE_SPACE =
     map (\<lambda>c. [c]) [CHR 0x09, CHR 0x0A, CHR 0x0B, CHR 0x0C, CHR 0x0D, CHR 0x20]
     @ [[CHR 0xC2, CHR 0xA0], [CHR 0xE1, CHR 0x9A, CHR 0x80]]
     @ map (\<lambda>c. [CHR 0xE2, CHR 0x80, c])
         [CHR 0x80, CHR 0x81, CHR 0x82, CHR 0x83, CHR 0x84, CHR 0x85, CHR 0x86, CHR 0x87,
          CHR 0x88, CHR 0x89, CHR 0x8A, CHR 0xA8, CHR 0xA9, CHR 0xAF]
     @ [[CHR 0xE2, CHR 0x81, CHR 0x9F], [CHR 0xE3, CHR 0x80, CHR 0x80],
        [CHR 0xEF, CHR 0xBB, CHR 0xBF]]"

text \<open>
  Removing from the front of a string, one after the other, the members of \<open>ws\<close> (byte
  sequences, none empty) it starts with.
\<close>

fun stripLeading :: "string list \<Rightarrow> string \<Rightarrow> string" where
  "stripLeading ws [] = []"
| "stripLeading ws (c # cs) =
     (case find (\<lambda>w. prefix w (c # cs)) ws of
        None \<Rightarrow> c # cs
      | Some w \<Rightarrow> stripLeading ws (drop (length w - 1) cs))"

text \<open>\<^verbatim>\<open>s.trim()\<close>: white space goes from the front, then from the end (read backwards).\<close>

definition trim :: "string \<Rightarrow> string" where
  "trim s = rev (stripLeading (map rev WHITE_SPACE) (rev (stripLeading WHITE_SPACE s)))"

text \<open>\<^verbatim>\<open>indexOf\<close> and \<^verbatim>\<open>lastIndexOf\<close> of a single character; \<open>None\<close> is the \<open>-1\<close> of JavaScript.\<close>

fun indexOf :: "string \<Rightarrow> char \<Rightarrow> nat option" where
  "indexOf [] x = None"
| "indexOf (y # ys) x = (if y = x then Some 0 else map_option Suc (indexOf ys x))"

definition lastIndexOf :: "string \<Rightarrow> char \<Rightarrow> nat option" where
  "lastIndexOf s x = map_option (\<lambda>i. length s - 1 - i) (indexOf (rev s) x)"

text \<open>\<^verbatim>\<open>s.substring(a, b)\<close>: both indices are clamped to the length, and swapped when \<open>a > b\<close>.\<close>

definition substring :: "string \<Rightarrow> nat \<Rightarrow> nat \<Rightarrow> string" where
  "substring s a b =
     (let a' = min a (length s); b' = min b (length s);
          lo = min a' b'; hi = max a' b'
      in take (hi - lo) (drop lo s))"

text \<open>\<^verbatim>\<open>s.includes(t)\<close>: \<open>t\<close> occurs in \<open>s\<close> as a contiguous block.\<close>

definition includesStr :: "string \<Rightarrow> string \<Rightarrow> bool" where
  "includesStr s t = sublist t s"

subsection \<open>cleanJsonString\<close>

text \<open>
  \<^verbatim>\<open>str.replace(/```json\n?|```/g, '')\<close>: scanning from the left, at each position the
  first alternative (three backticks, \<^verbatim>\<open>json\<close>, and a newline when one follows) is tried
  before the second (three backticks); a match is deleted and the scan goes on after it.
\<close>

fun stripFences :: "string \<Rightarrow> string" where
  "stripFences [] = []"
| "stripFences (c # cs) =
     (if prefix ''```json\<newline>'' (c # cs) then stripFences (drop 7 cs)
      else if prefix ''```json'' (c # cs) then stripFences (drop 6 cs)
      else if prefix ''```'' (c # cs) then stripFences (drop 2 cs)
      else c # stripFences cs)"

definition cleanJsonString :: "string \<Rightarrow> string" where
  "cleanJsonString str =
     (let clean = trim (stripFences str) in
      case indexOf clean (CHR ''['') of
        None \<Rightarrow> clean
      | Some start \<Rightarrow>
          (case lastIndexOf clean (CHR '']'') of
             None \<Rightarrow> clean
           | Some end \<Rightarrow> substring clean start (end + 1)))"

subsection \<open>Parsed JSON values and the normaliser\<close>

text \<open>
  The value \<^verbatim>\<open>JSON.parse\<close> returns. A number is a finite double, read as the rational it
  denotes. An object lists its own properties; a key is looked up from the front.
\<close>

datatype json =
    JNull
  | JBool bool
  | JNum rat
  | JStr string
  | JArr "json list"
  | JObj "(string \<times> json) list"

text \<open>JavaScript truthiness of a parsed value.\<close>

fun truthy :: "json \<Rightarrow> bool" where
  "truthy JNull = False"
| "truthy (JBool b) = b"
| "truthy (JNum n) = (n \<noteq> 0)"
| "truthy (JStr s) = (s \<noteq> [])"
| "truthy (JArr xs) = True"
| "truthy (JObj kvs) = True"

text \<open>
  \<^verbatim>\<open>item.k\<close> for a value other than \<^verbatim>\<open>null\<close>; \<open>None\<close> is \<^verbatim>\<open>undefined\<close>. None of the seven
  names the normaliser reads is a built-in property of a string, number, boolean or
  array, so only an object can answer.
\<close>

fun getField :: "json \<Rightarrow> string \<Rightarrow> json option" where
  "getField (JObj kvs) k = map_of kvs k"
| "getField v k = None"

text \<open>\<^verbatim>\<open>x || d\<close>.\<close>

fun orElse :: "json option \<Rightarrow> json \<Rightarrow> json" where
  "orElse None d = d"
| "orElse (Some v) d = (if truthy v then v else d)"

text \<open>
  The fields the classifier returns for one text, as they are at run time: the casts of the
  source check nothing, so a field \<^verbatim>\<open>types.ts\<close> declares a string or a sentiment holds
  whatever parsed value the normaliser let through.
\<close>

record classification =
  sentiment :: json
  emotion :: json
  emotionEmoji :: json
  isSarcastic :: bool
  confidence :: rat
  keywords_list :: "json list"
  explanation :: json

type_synonym normalized = classification

text \<open>
  The emoji literal of line 161, byte for byte as the source file has it: the UTF-8 forms
  of U+F8FF, U+00FC, U+00F2 and U+00EA.
\<close>

definition NEUTRAL_FACE :: string where
  "NEUTRAL_FACE = [CHR 0xEF, CHR 0xA3, CHR 0xBF, CHR 0xC3, CHR 0xBC, CHR 0xC3, CHR 0xB2,
                   CHR 0xC3, CHR 0xAA]"

text \<open>
  The callback of \<^verbatim>\<open>parsedData.map\<close>. Reading a property of \<^verbatim>\<open>null\<close> throws a
  \<^verbatim>\<open>TypeError\<close>: that is \<open>None\<close>.
\<close>

fun normalizeItem :: "json \<Rightarrow> normalized option" where
  "normalizeItem JNull = None"
| "normalizeItem item = Some
     \<lparr> sentiment = orElse (getField item ''sentiment'') (JStr ''Neutral''),
       emotion = orElse (getField item ''emotion'') (JStr ''Neutral''),
       emotionEmoji = orElse (getField item ''emotionEmoji'') (JStr NEUTRAL_FACE),
       isSarcastic = (case getField item ''isSarcastic'' of None \<Rightarrow> False | Some v \<Rightarrow> truthy v),
       confidence = (case getField item ''confidence'' of Some (JNum n) \<Rightarrow> n | _ \<Rightarrow> 0.5),
       keywords_list = (case getField item ''keywords'' of Some (JArr ks) \<Rightarrow> ks | _ \<Rightarrow> []),
       explanation = orElse (getField item ''explanation'') (JStr ''No explanation provided.'') \<rparr>"

subsection \<open>GeminiError and the error classifier\<close>

datatype error_code =
  AUTH_ERROR | RATE_LIMIT | SERVER_ERROR | SAFETY_BLOCK | PARSE_ERROR | INVALID_REQUEST | UNKNOWN

record GeminiError =
  message :: string
  code :: error_code
  solution :: "string option"
  status :: "int option"

text \<open>
  What the \<^verbatim>\<open>catch\<close> block reads of a failure that is not a \<^verbatim>\<open>GeminiError\<close>:
  \<^verbatim>\<open>error.message\<close>, \<^verbatim>\<open>error.status\<close> and \<^verbatim>\<open>error.response?.status\<close>, each \<open>None\<close> when
  absent. A status is an integer.
\<close>

record thrown =
  err_message :: "string option"
  err_status :: "int option"
  response_status :: "int option"

definition MODEL_NAME :: string where
  "MODEL_NAME = ''gemini-2.5-flash''"

text \<open>\<^verbatim>\<open>error.status || error.response?.status\<close>\<close>

definition statusOf :: "thrown \<Rightarrow> int option" where
  "statusOf e =
     (case err_status e of
        None \<Rightarrow> response_status e
      | Some n \<Rightarrow> if n \<noteq> 0 then Some n else response_status e)"

text \<open>The six errors the classifier can throw (lines 177 to 227), by the order of its tests.\<close>

definition INVALID_KEY :: "int option \<Rightarrow> GeminiError" where
  "INVALID_KEY st =
     \<lparr> message = ''Invalid API Key or Permissions.'', code = AUTH_ERROR,
       solution = Some ''Please verify your API key. Ensure it is valid, active, and has access to the Gemini API.'',
       status = st \<rparr>"

definition RATE_LIMITED :: GeminiError where
  "RATE_LIMITED =
     \<lparr> message = ''Rate limit exceeded.'', code = RATE_LIMIT,
       solution = Some ''You are sending requests too quickly. Please wait a moment before trying again, or reduce the batch size.'',
       status = Some 429 \<rparr>"

definition OVERLOADED :: GeminiError where
  "OVERLOADED =
     \<lparr> message = ''AI Service Unavailable.'', code = SERVER_ERROR,
       solution = Some ''The Gemini service is currently overloaded. Please try again in a few minutes.'',
       status = Some 503 \<rparr>"

definition BAD_REQUEST :: GeminiError where
  "BAD_REQUEST =
     \<lparr> message = ''Invalid Request.'', code = INVALID_REQUEST,
       solution = Some ''The request was malformed. Please check your input text for unsupported characters or format.'',
       status = Some 400 \<rparr>"

definition MODEL_NOT_FOUND :: GeminiError where
  "MODEL_NOT_FOUND =
     \<lparr> message = ''Model Not Found.'', code = INVALID_REQUEST,
       solution = Some (''The model '' @ [CHR 0x27] @ MODEL_NAME @ [CHR 0x27]
                        @ '' was not found. It may be deprecated or not available in your region.''),
       status = Some 404 \<rparr>"

definition UNEXPECTED :: "int option \<Rightarrow> GeminiError" where
  "UNEXPECTED st =
     \<lparr> message = ''An unexpected network or API error occurred.'', code = UNKNOWN,
       solution = Some ''Check your internet connection and try again. If the issue persists, check the console for logs.'',
       status = st \<rparr>"

text \<open>The tests of the \<^verbatim>\<open>catch\<close> block on the message and the status, in the order of the source.\<close>

definition classifyError :: "thrown \<Rightarrow> GeminiError" where
  "classifyError e =
     (let msg = (case err_message e of None \<Rightarrow> [] | Some m \<Rightarrow> m);
          st = statusOf e
      in
      if includesStr msg ''401'' \<or> includesStr msg ''403'' \<or> includesStr msg ''API key''
           \<or> st = Some 401 \<or> st = Some 403 then INVALID_KEY st
      else if includesStr msg ''429'' \<or> includesStr msg ''Quota'' \<or> st = Some 429 then RATE_LIMITED
      else if includesStr msg ''503'' \<or> includesStr msg ''Overloaded'' \<or> st = Some 503 then OVERLOADED
      else if st = Some 400 \<or> includesStr msg ''400'' then BAD_REQUEST
      else if st = Some 404 \<or> includesStr msg ''404'' then MODEL_NOT_FOUND
      else UNEXPECTED st)"

subsection \<open>analyzeSentimentBatch\<close>

text \<open>
  The remote call is the environment: \<^verbatim>\<open>generateContent\<close> either rejects with a failure
  or resolves with a response, of which the code reads the number of candidates (\<open>None\<close>
  when the field is absent) and the text (\<open>None\<close> when undefined).
\<close>

record response =
  candidates :: "nat option"
  jsonText :: "string option"

datatype sdk_outcome = Rejects thrown | Resolves response

text \<open>What the \<^verbatim>\<open>try\<close> block can throw: a \<^verbatim>\<open>GeminiError\<close> of its own, or anything else.\<close>

datatype failure = Own GeminiError | Foreign thrown

definition SAFETY_BLOCKED :: GeminiError where
  "SAFETY_BLOCKED =
     \<lparr> message = ''Analysis blocked by safety filters.'', code = SAFETY_BLOCK,
       solution = Some ''The content may violate safety policies (harassment, hate speech, etc.). Try rephrasing the text.'',
       status = None \<rparr>"

definition EMPTY_RESPONSE :: GeminiError where
  "EMPTY_RESPONSE =
     \<lparr> message = ''Received empty response from AI model.'', code = SERVER_ERROR,
       solution = Some ''The model returned an empty result. Please try again.'',
       status = None \<rparr>"

definition MALFORMED_JSON :: GeminiError where
  "MALFORMED_JSON =
     \<lparr> message = ''Failed to process model response.'', code = PARSE_ERROR,
       solution = Some ''The AI returned malformed JSON. This is usually temporary, please retry.'',
       status = None \<rparr>"

definition INVALID_STRUCTURE :: GeminiError where
  "INVALID_STRUCTURE =
     \<lparr> message = ''Invalid response structure.'', code = PARSE_ERROR,
       solution = Some ''Expected a list of results but got something else.'',
       status = None \<rparr>"

definition KEY_MISSING :: GeminiError where
  "KEY_MISSING =
     \<lparr> message = ''API Key is missing'', code = AUTH_ERROR,
       solution = Some ''Please configure your API key in the settings menu.'',
       status = None \<rparr>"

text \<open>
  The body of the \<^verbatim>\<open>try\<close> block (lines 107 to 166). \<open>parse\<close> is \<^verbatim>\<open>JSON.parse\<close>, with
  \<open>None\<close> for a \<^verbatim>\<open>SyntaxError\<close>; \<open>tmsg\<close> is the message the engine gives the
  \<^verbatim>\<open>TypeError\<close> of reading a property of \<^verbatim>\<open>null\<close>, which \<^verbatim>\<open>map\<close> lets through.
\<close>

definition tryBlock :: "(string \<Rightarrow> json option) \<Rightarrow> string \<Rightarrow> sdk_outcome \<Rightarrow> failure + normalized list" where
  "tryBlock parse tmsg remote =
     (case remote of
        Rejects e \<Rightarrow> Inl (Foreign e)
      | Resolves r \<Rightarrow>
          if candidates r = None \<or> candidates r = Some 0 then Inl (Own SAFETY_BLOCKED)
          else (case jsonText r of
             None \<Rightarrow> Inl (Own EMPTY_RESPONSE)
           | Some t \<Rightarrow>
               if t = [] then Inl (Own EMPTY_RESPONSE)
               else (case parse (cleanJsonString t) of
                  None \<Rightarrow> Inl (Own MALFORMED_JSON)
                | Some (JArr items) \<Rightarrow>
                    (case those (map normalizeItem items) of
                       None \<Rightarrow> Inl (Foreign \<lparr> err_message = Some tmsg, err_status = None,
                                              response_status = None \<rparr>)
                     | Some rs \<Rightarrow> Inr rs)
                | Some _ \<Rightarrow> Inl (Own INVALID_STRUCTURE))))"

text \<open>The \<^verbatim>\<open>catch\<close> block: a \<^verbatim>\<open>GeminiError\<close> is thrown again, anything else is classified.\<close>

definition catchBlock :: "failure \<Rightarrow> GeminiError" where
  "catchBlock f = (case f of Own g \<Rightarrow> g | Foreign e \<Rightarrow> classifyError e)"

text \<open>
  The whole function. It returns the requests sent to the remote service (each the list
  of texts of its prompt) and either the error it throws or the records it returns.
\<close>

definition analyzeSentimentBatch ::
  "(string \<Rightarrow> json option) \<Rightarrow> string \<Rightarrow> sdk_outcome \<Rightarrow> string list \<Rightarrow> string
     \<Rightarrow> string list list \<times> (GeminiError + normalized list)" where
  "analyzeSentimentBatch parse tmsg remote texts apiKey =
     (if apiKey = [] then ([], Inl KEY_MISSING)
      else if texts = [] then ([], Inr [])
      else ([texts],
            case tryBlock parse tmsg remote of
              Inl f \<Rightarrow> Inl (catchBlock f)
            | Inr rs \<Rightarrow> Inr rs))"

subsection \<open>The application state and processBatch\<close>

record BatchProgress =
  total :: nat
  processed :: nat
  errors :: nat
  isProcessing :: bool

record ErrorDetails =
  title :: string
  detail_message :: string
  detail_solution :: "string option"
  detail_code :: "string option"
  detail_status :: "int option"

datatype toast_type = success | error

fun codeName :: "error_code \<Rightarrow> string" where
  "codeName AUTH_ERROR = ''AUTH_ERROR''"
| "codeName RATE_LIMIT = ''RATE_LIMIT''"
| "codeName SERVER_ERROR = ''SERVER_ERROR''"
| "codeName SAFETY_BLOCK = ''SAFETY_BLOCK''"
| "codeName PARSE_ERROR = ''PARSE_ERROR''"
| "codeName INVALID_REQUEST = ''INVALID_REQUEST''"
| "codeName UNKNOWN = ''UNKNOWN''"

text \<open>
  A stored result, as it is at run time: the classification, the id, the time stamp and the
  text, which is \<^verbatim>\<open>chunk[idx]\<close> and so undefined (\<open>None\<close>) for a record beyond the length
  of the chunk.
\<close>

record AnalysisResult = classification +
  result_id :: string
  result_text :: "string option"
  timestamp :: nat

text \<open>
  The state hooks of \<^verbatim>\<open>App\<close> that \<^verbatim>\<open>processBatch\<close> writes. \<^verbatim>\<open>Math.random\<close> and
  \<^verbatim>\<open>Date.now\<close> are the environment: the \<open>n\<close>-th result created takes the id
  \<open>idSource n\<close> and the time stamp \<open>clock n\<close>, and \<open>created\<close> counts the results created
  so far. Two logs are added to observe a cycle: \<open>requests\<close>, the groups sent to the
  remote service, and \<open>progressLog\<close>, every value \<^verbatim>\<open>setBatchProgress\<close> has stored, in
  order.
\<close>

record app_state =
  apiKey :: string
  isApiKeyModalOpen :: bool
  results :: "AnalysisResult list"
  isProcessing_state :: bool
  errorDetails :: "ErrorDetails option"
  batchProgress :: BatchProgress
  toast :: "(string \<times> toast_type) option"
  idSource :: "nat \<Rightarrow> string"
  clock :: "nat \<Rightarrow> nat"
  created :: nat
  requests :: "string list list"
  progressLog :: "BatchProgress list"

definition setBatchProgress :: "(BatchProgress \<Rightarrow> BatchProgress) \<Rightarrow> app_state \<Rightarrow> app_state" where
  "setBatchProgress f st =
     st\<lparr> batchProgress := f (batchProgress st),
         progressLog := progressLog st @ [f (batchProgress st)] \<rparr>"

definition showToast :: "string \<Rightarrow> toast_type \<Rightarrow> app_state \<Rightarrow> app_state" where
  "showToast msg ty st = st\<lparr> toast := Some (msg, ty) \<rparr>"

text \<open>A natural number in decimal, as a template literal prints it.\<close>

fun showNat :: "nat \<Rightarrow> string" where
  "showNat n =
     (if n < 10 then [char_of (48 + n)]
      else showNat (n div 10) @ [char_of (48 + n mod 10)])"

declare showNat.simps [simp del]

definition CHUNK_SIZE :: nat where
  "CHUNK_SIZE = 8"

text \<open>\<^verbatim>\<open>xs.slice(i, j)\<close> for \<open>i \<le> j\<close>.\<close>

definition slice :: "'a list \<Rightarrow> nat \<Rightarrow> nat \<Rightarrow> 'a list" where
  "slice xs i j = take (j - i) (drop i xs)"

text \<open>
  The rest of the inner \<^verbatim>\<open>try\<close> block once \<^verbatim>\<open>analyzeSentimentBatch\<close> has returned: the new
  results go in front of the old ones and the processed counter advances.
\<close>

definition onChunkResults :: "string list \<Rightarrow> normalized list \<Rightarrow> app_state \<Rightarrow> app_state" where
  "onChunkResults chunk chunkResults st =
     (let newResults =
            map (\<lambda>(idx, r).
                   \<lparr> sentiment = sentiment r, emotion = emotion r, emotionEmoji = emotionEmoji r,
                     isSarcastic = isSarcastic r, confidence = confidence r,
                     keywords_list = keywords_list r, explanation = explanation r,
                     result_id = idSource st (created st + idx),
                     result_text = (if idx < length chunk then Some (chunk ! idx) else None),
                     timestamp = clock st (created st + idx) \<rparr>)
                (enumerate 0 chunkResults);
          st2 = st\<lparr> results := newResults @ results st,
                    created := created st + length chunkResults \<rparr>
      in setBatchProgress
           (\<lambda>prev. prev\<lparr> processed := min (processed prev + length chunk) (total prev) \<rparr>) st2)"

text \<open>The inner \<^verbatim>\<open>catch\<close> block for an error that is not critical, at index \<open>i\<close>.\<close>

definition onChunkError :: "nat \<Rightarrow> string list \<Rightarrow> app_state \<Rightarrow> app_state" where
  "onChunkError i chunk st =
     (let st2 = setBatchProgress (\<lambda>prev. prev\<lparr> errors := errors prev + length chunk \<rparr>) st
      in showToast (''Batch '' @ showNat (i div CHUNK_SIZE + 1) @ '' failed.'') error st2)"

text \<open>
  The \<^verbatim>\<open>for\<close> loop of \<^verbatim>\<open>processBatch\<close>, from index \<open>i\<close>. The remote service answers the
  \<open>k\<close>-th group with \<open>remote k\<close>. The result carries \<^verbatim>\<open>authErrorOccurred\<close> and
  \<^verbatim>\<open>criticalError\<close>; both are set only together with the \<^verbatim>\<open>break\<close>, so the test at
  the head of the loop body never sees the flag set.
\<close>

function batchLoop ::
  "(string \<Rightarrow> json option) \<Rightarrow> string \<Rightarrow> (nat \<Rightarrow> sdk_outcome) \<Rightarrow> string list \<Rightarrow> string
     \<Rightarrow> nat \<Rightarrow> app_state \<Rightarrow> app_state \<times> bool \<times> GeminiError option" where
  "batchLoop parse tmsg remote texts key i st =
     (if i < length texts then
        (let chunk = slice texts i (i + CHUNK_SIZE);
             call = analyzeSentimentBatch parse tmsg (remote (i div CHUNK_SIZE)) chunk key;
             st1 = st\<lparr> requests := requests st @ fst call \<rparr>
         in case snd call of
              Inr chunkResults \<Rightarrow>
                batchLoop parse tmsg remote texts key (i + CHUNK_SIZE)
                  (onChunkResults chunk chunkResults st1)
            | Inl err \<Rightarrow>
                if code err = AUTH_ERROR then
                  (st1\<lparr> apiKey := [], isApiKeyModalOpen := True \<rparr>, True, Some err)
                else
                  batchLoop parse tmsg remote texts key (i + CHUNK_SIZE)
                    (onChunkError i chunk st1))
      else (st, False, None))"
  by pat_completeness auto
termination
  by (relation "measure (\<lambda>(parse, tmsg, remote, texts, key, i, st). length texts - i)")
     (auto simp: CHUNK_SIZE_def)

declare batchLoop.simps [simp del]

definition ALL_FAILED :: ErrorDetails where
  "ALL_FAILED =
     \<lparr> title = ''Processing Failed'', detail_message = ''All items failed to process.'',
       detail_solution = Some ''Check your internet connection or API quota.'',
       detail_code = Some ''ALL_FAILED'', detail_status = None \<rparr>"

text \<open>
  One call of \<^verbatim>\<open>processBatch\<close>, run to its end with no other handler in between:
  \<open>beginCycle\<close> is lines 110 to 112, \<open>endCycle\<close> the \<^verbatim>\<open>finally\<close> block. The
  count of successes after the loop reads \<^verbatim>\<open>batchProgress.errors\<close> of the closure, that
  is of the state the call started from. Nothing the outer \<^verbatim>\<open>try\<close> encloses throws
  past the inner \<^verbatim>\<open>catch\<close>, so the outer \<^verbatim>\<open>catch\<close> has no branch here.
\<close>

definition beginCycle :: "string list \<Rightarrow> app_state \<Rightarrow> app_state" where
  "beginCycle texts st =
     setBatchProgress
       (\<lambda>prev. \<lparr> total = length texts, processed = 0, errors = 0, isProcessing = True \<rparr>)
       (st\<lparr> isProcessing_state := True, errorDetails := None \<rparr>)"

definition endCycle :: "app_state \<Rightarrow> app_state" where
  "endCycle st =
     setBatchProgress (\<lambda>prev. prev\<lparr> isProcessing := False \<rparr>) (st\<lparr> isProcessing_state := False \<rparr>)"

definition processBatch ::
  "(string \<Rightarrow> json option) \<Rightarrow> string \<Rightarrow> (nat \<Rightarrow> sdk_outcome) \<Rightarrow> string list
     \<Rightarrow> app_state \<Rightarrow> app_state" where
  "processBatch parse tmsg remote texts st =
     (if apiKey st = [] then st\<lparr> isApiKeyModalOpen := True \<rparr>
      else
        (let (st3, authErrorOccurred, criticalError) =
                batchLoop parse tmsg remote texts (apiKey st) 0 (beginCycle texts st);
             st4 =
               (case criticalError of
                  Some err \<Rightarrow>
                    showToast ''Authentication Failed'' error
                      (st3\<lparr> errorDetails := Some
                         \<lparr> title = ''Authentication Failed'', detail_message = message err,
                           detail_solution = solution err, detail_code = Some (codeName (code err)),
                           detail_status = status err \<rparr> \<rparr>)
                | None \<Rightarrow>
                    if authErrorOccurred then
                      st3\<lparr> errorDetails := Some
                        \<lparr> title = ''Auth Error'', detail_message = ''Invalid API Key'',
                          detail_solution = Some ''Check settings.'', detail_code = None,
                          detail_status = None \<rparr> \<rparr>
                    else
                      (let successCount = int (length texts) - int (errors (batchProgress st))
                       in if successCount = 0 \<and> length texts > 0 then
                            st3\<lparr> errorDetails := Some ALL_FAILED \<rparr>
                          else if successCount > 0 then
                            showToast ''Analysis Cycle Complete!'' success st3
                          else st3))
         in endCycle st4))"

subsection \<open>handleFileUpload\<close>












subsection \<open>downloadCSV\<close>











subsection \<open>Observing one batch cycle\<close>

text \<open>
  What \<^verbatim>\<open>analyzeSentimentBatch\<close> gives for the \<open>k\<close>-th group of \<open>texts\<close>, and whether
  that is an error with the code \<^verbatim>\<open>AUTH_ERROR\<close>, which the loop treats as critical.
\<close>

definition groupAt :: "string list \<Rightarrow> nat \<Rightarrow> string list" where
  "groupAt texts k = slice texts (k * CHUNK_SIZE) (k * CHUNK_SIZE + CHUNK_SIZE)"

definition groupOutcome ::
  "(string \<Rightarrow> json option) \<Rightarrow> string \<Rightarrow> (nat \<Rightarrow> sdk_outcome) \<Rightarrow> string list \<Rightarrow> string
     \<Rightarrow> nat \<Rightarrow> GeminiError + normalized list" where
  "groupOutcome parse tmsg remote texts key k =
     snd (analyzeSentimentBatch parse tmsg (remote k) (groupAt texts k) key)"

definition authFailsAt ::
  "(string \<Rightarrow> json option) \<Rightarrow> string \<Rightarrow> (nat \<Rightarrow> sdk_outcome) \<Rightarrow> string list \<Rightarrow> string
     \<Rightarrow> nat \<Rightarrow> bool" where
  "authFailsAt parse tmsg remote texts key k \<longleftrightarrow>
     (case groupOutcome parse tmsg remote texts key k of
        Inl err \<Rightarrow> code err = AUTH_ERROR
      | Inr rs \<Rightarrow> False)"

definition succeedsAt ::
  "(string \<Rightarrow> json option) \<Rightarrow> string \<Rightarrow> (nat \<Rightarrow> sdk_outcome) \<Rightarrow> string list \<Rightarrow> string
     \<Rightarrow> nat \<Rightarrow> bool" where
  "succeedsAt parse tmsg remote texts key k \<longleftrightarrow>
     (case groupOutcome parse tmsg remote texts key k of
        Inl err \<Rightarrow> False
      | Inr rs \<Rightarrow> True)"

subsection \<open>Sample inputs\<close>

text \<open>
  The state \<^verbatim>\<open>App\<close> starts from (the initial values of its hooks) with a credential and
  an environment that gives every result the same id and time stamp, and a failure of the
  remote call with status 500.
\<close>

definition initialState :: "string \<Rightarrow> app_state" where
  "initialState key =
     \<lparr> apiKey = key, isApiKeyModalOpen = False, results = [], isProcessing_state = False,
       errorDetails = None,
       batchProgress = \<lparr> total = 0, processed = 0, errors = 0, isProcessing = False \<rparr>,
       toast = None, idSource = (\<lambda>n. ''a1b2c3d''), clock = (\<lambda>n. 0), created = 0,
       requests = [], progressLog = [] \<rparr>"

definition SERVER_FAULT :: thrown where
  "SERVER_FAULT = \<lparr> err_message = None, err_status = Some 500, response_status = None \<rparr>"

text \<open>
  A batch of twenty texts, a failure of the remote call with status 401, a parser that
  reads every text as the empty array, and a remote service that answers the first group
  with the text \<^verbatim>\<open>[]\<close> and every later group with the status 401.
\<close>

definition UNAUTHORIZED :: thrown where
  "UNAUTHORIZED = \<lparr> err_message = None, err_status = Some 401, response_status = None \<rparr>"

definition TWENTY_TEXTS :: "string list" where
  "TWENTY_TEXTS = replicate 20 ''good day''"

definition parseEmptyArray :: "string \<Rightarrow> json option" where
  "parseEmptyArray s = Some (JArr [])"

definition secondGroupUnauthorized :: "nat \<Rightarrow> sdk_outcome" where
  "secondGroupUnauthorized k =
     (if k = 0 then Resolves \<lparr> candidates = Some 1, jsonText = Some ''[]'' \<rparr>
      else Rejects UNAUTHORIZED)"






text \<open>The response text \<^verbatim>\<open>{"a":1}\<close>, and a parser that knows this text only.\<close>

definition OBJECT_TEXT :: string where
  "OBJECT_TEXT = ''{'' @ [CHR 0x22] @ ''a'' @ [CHR 0x22] @ '':1}''"

definition parseObjectText :: "string \<Rightarrow> json option" where
  "parseObjectText s = (if s = OBJECT_TEXT then Some (JObj [(''a'', JNum 1)]) else None)"

section \<open>The guards of analyzeSentimentBatch\<close>

text \<open>
  C10. With the empty credential \<^verbatim>\<open>analyzeSentimentBatch\<close> throws the \<^verbatim>\<open>AUTH_ERROR\<close> for
  a missing key before anything else, whatever the texts are (the empty list too) and
  with no request sent; with a credential and the empty list of texts it returns the
  empty list, and sends no request to the remote service.
\<close>

theorem analyzeSentimentBatch_guards:
  "analyzeSentimentBatch parse tmsg remote texts [] = ([], Inl KEY_MISSING)
   \<and> code KEY_MISSING = AUTH_ERROR
   \<and> (key \<noteq> [] \<longrightarrow> analyzeSentimentBatch parse tmsg remote [] key = ([], Inr []))"
  by (simp add: analyzeSentimentBatch_def KEY_MISSING_def)

theorem analyzeSentimentBatch_guards_witness:
  "analyzeSentimentBatch (\<lambda>s. None) [] (Resolves \<lparr> candidates = Some 1, jsonText = Some ''[]'' \<rparr>) [] []
     = ([], Inl KEY_MISSING)
   \<and> code KEY_MISSING = AUTH_ERROR
   \<and> ''AIzaXYZ'' \<noteq> []
   \<and> analyzeSentimentBatch (\<lambda>s. None) [] (Resolves \<lparr> candidates = Some 1, jsonText = Some ''[]'' \<rparr>) []
        ''AIzaXYZ'' = ([], Inr [])"
  using analyzeSentimentBatch_guards
    [of "\<lambda>s. None" "[]" "Resolves \<lparr> candidates = Some 1, jsonText = Some ''[]'' \<rparr>" "[]" "''AIzaXYZ''"]
  by simp

section \<open>Parsing the response\<close>

text \<open>
  C6. Take a call that reaches the parser: a credential, at least one text, a response
  with a candidate and a text that is not empty. When \<^verbatim>\<open>JSON.parse\<close> rejects the cleaned
  text, the call throws the error for malformed JSON; when it accepts it with a value
  that is not an array, the call throws the error for an invalid structure. Both carry
  the code \<^verbatim>\<open>PARSE_ERROR\<close>.
\<close>

theorem parse_failures_are_PARSE_ERROR:
  assumes "key \<noteq> []" and "texts \<noteq> []"
    and "candidates r = Some (Suc n)" and "jsonText r = Some t" and "t \<noteq> []"
  shows "(parse (cleanJsonString t) = None \<longrightarrow>
            snd (analyzeSentimentBatch parse tmsg (Resolves r) texts key) = Inl MALFORMED_JSON)
       \<and> (\<forall>v. parse (cleanJsonString t) = Some v \<and> (\<forall>items. v \<noteq> JArr items) \<longrightarrow>
            snd (analyzeSentimentBatch parse tmsg (Resolves r) texts key) = Inl INVALID_STRUCTURE)
       \<and> code MALFORMED_JSON = PARSE_ERROR \<and> code INVALID_STRUCTURE = PARSE_ERROR"
  using assms
  by (auto simp: analyzeSentimentBatch_def tryBlock_def catchBlock_def MALFORMED_JSON_def
        INVALID_STRUCTURE_def split: json.splits)

theorem parse_failures_are_PARSE_ERROR_witness:
  "''k'' \<noteq> [] \<and> [''good day''] \<noteq> []
   \<and> candidates \<lparr> candidates = Some 1, jsonText = Some OBJECT_TEXT \<rparr> = Some (Suc 0)
   \<and> jsonText \<lparr> candidates = Some 1, jsonText = Some OBJECT_TEXT \<rparr> = Some OBJECT_TEXT
   \<and> OBJECT_TEXT \<noteq> []
   \<and> parseObjectText (cleanJsonString OBJECT_TEXT) = Some (JObj [(''a'', JNum 1)])
   \<and> snd (analyzeSentimentBatch parseObjectText []
             (Resolves \<lparr> candidates = Some 1, jsonText = Some OBJECT_TEXT \<rparr>) [''good day''] ''k'')
        = Inl INVALID_STRUCTURE
   \<and> code INVALID_STRUCTURE = PARSE_ERROR"
proof -
  have c: "cleanJsonString OBJECT_TEXT = OBJECT_TEXT"
    by (simp add: OBJECT_TEXT_def cleanJsonString_def trim_def WHITE_SPACE_def lastIndexOf_def
          substring_def)
  have ne: "OBJECT_TEXT \<noteq> []"
    by (simp add: OBJECT_TEXT_def)
  show ?thesis
    using parse_failures_are_PARSE_ERROR
      [of "''k''" "[''good day'']" "\<lparr> candidates = Some 1, jsonText = Some OBJECT_TEXT \<rparr>" 0
          OBJECT_TEXT parseObjectText "[]"]
    by (simp add: c ne parseObjectText_def)
qed

section \<open>The normaliser\<close>

lemma normalizeItem_total:
  "item \<noteq> JNull \<Longrightarrow> normalizeItem item = Some
     \<lparr> sentiment = orElse (getField item ''sentiment'') (JStr ''Neutral''),
       emotion = orElse (getField item ''emotion'') (JStr ''Neutral''),
       emotionEmoji = orElse (getField item ''emotionEmoji'') (JStr NEUTRAL_FACE),
       isSarcastic = (case getField item ''isSarcastic'' of None \<Rightarrow> False | Some v \<Rightarrow> truthy v),
       confidence = (case getField item ''confidence'' of Some (JNum n) \<Rightarrow> n | _ \<Rightarrow> 0.5),
       keywords_list = (case getField item ''keywords'' of Some (JArr ks) \<Rightarrow> ks | _ \<Rightarrow> []),
       explanation = orElse (getField item ''explanation'') (JStr ''No explanation provided.'') \<rparr>"
  by (cases item) simp_all

lemma orElse_missing: "x = None \<or> (\<exists>v. x = Some v \<and> \<not> truthy v) \<Longrightarrow> orElse x d = d"
  by (cases x) auto

lemma confidence_default:
  "\<forall>n. x \<noteq> Some (JNum n) \<Longrightarrow> (case x of Some (JNum n) \<Rightarrow> n | _ \<Rightarrow> d) = d"
  by (simp split: option.split json.split)

lemma keywords_default:
  "\<forall>ks. x \<noteq> Some (JArr ks) \<Longrightarrow> (case x of Some (JArr ks) \<Rightarrow> ks | _ \<Rightarrow> d) = d"
  by (simp split: option.split json.split)

lemma sarcasm_coerced:
  "(case x of None \<Rightarrow> False | Some v \<Rightarrow> truthy v) \<longleftrightarrow> (\<exists>v. x = Some v \<and> truthy v)"
  by (cases x) auto

lemma normalizeItem_fields:
  assumes "normalizeItem item = Some r"
  shows "((getField item ''sentiment'' = None \<or> (\<exists>v. getField item ''sentiment'' = Some v \<and> \<not> truthy v))
            \<longrightarrow> sentiment r = JStr ''Neutral'')
     \<and> (\<forall>v. getField item ''sentiment'' = Some v \<and> truthy v \<longrightarrow> sentiment r = v)
     \<and> (getField item ''emotion'' = None \<longrightarrow> emotion r = JStr ''Neutral'')
     \<and> (getField item ''emotionEmoji'' = None \<longrightarrow> emotionEmoji r = JStr NEUTRAL_FACE)
     \<and> (isSarcastic r \<longleftrightarrow> (\<exists>v. getField item ''isSarcastic'' = Some v \<and> truthy v))
     \<and> ((\<forall>n. getField item ''confidence'' \<noteq> Some (JNum n)) \<longrightarrow> confidence r = 1 / 2)
     \<and> (\<forall>n. getField item ''confidence'' = Some (JNum n) \<longrightarrow> confidence r = n)
     \<and> ((\<forall>ks. getField item ''keywords'' \<noteq> Some (JArr ks)) \<longrightarrow> keywords_list r = [])
     \<and> (\<forall>ks. getField item ''keywords'' = Some (JArr ks) \<longrightarrow> keywords_list r = ks)
     \<and> (getField item ''explanation'' = None
            \<longrightarrow> explanation r = JStr ''No explanation provided.'')"
proof -
  from assms have nn: "item \<noteq> JNull" by (cases item) simp_all
  have r: "r =
     \<lparr> sentiment = orElse (getField item ''sentiment'') (JStr ''Neutral''),
       emotion = orElse (getField item ''emotion'') (JStr ''Neutral''),
       emotionEmoji = orElse (getField item ''emotionEmoji'') (JStr NEUTRAL_FACE),
       isSarcastic = (case getField item ''isSarcastic'' of None \<Rightarrow> False | Some v \<Rightarrow> truthy v),
       confidence = (case getField item ''confidence'' of Some (JNum n) \<Rightarrow> n | _ \<Rightarrow> 0.5),
       keywords_list = (case getField item ''keywords'' of Some (JArr ks) \<Rightarrow> ks | _ \<Rightarrow> []),
       explanation = orElse (getField item ''explanation'') (JStr ''No explanation provided.'') \<rparr>"
    using normalizeItem_total [OF nn] assms by simp
  have s1: "(getField item ''sentiment'' = None \<or> (\<exists>v. getField item ''sentiment'' = Some v \<and> \<not> truthy v))
            \<longrightarrow> sentiment r = JStr ''Neutral''"
    by (subst r) (simp add: orElse_missing)
  have s2: "\<forall>v. getField item ''sentiment'' = Some v \<and> truthy v \<longrightarrow> sentiment r = v"
    by (subst r) simp
  have s3: "getField item ''emotion'' = None \<longrightarrow> emotion r = JStr ''Neutral''"
    by (subst r) simp
  have s4: "getField item ''emotionEmoji'' = None \<longrightarrow> emotionEmoji r = JStr NEUTRAL_FACE"
    by (subst r) simp
  have s5: "isSarcastic r \<longleftrightarrow> (\<exists>v. getField item ''isSarcastic'' = Some v \<and> truthy v)"
    by (subst r) (simp add: sarcasm_coerced)
  have s6: "(\<forall>n. getField item ''confidence'' \<noteq> Some (JNum n)) \<longrightarrow> confidence r = 1 / 2"
    by (subst r) (simp add: confidence_default)
  have s7: "\<forall>n. getField item ''confidence'' = Some (JNum n) \<longrightarrow> confidence r = n"
    by (subst r) simp
  have s8: "(\<forall>ks. getField item ''keywords'' \<noteq> Some (JArr ks)) \<longrightarrow> keywords_list r = []"
    by (subst r) (simp add: keywords_default)
  have s9: "\<forall>ks. getField item ''keywords'' = Some (JArr ks) \<longrightarrow> keywords_list r = ks"
    by (subst r) simp
  have s10: "getField item ''explanation'' = None \<longrightarrow> explanation r = JStr ''No explanation provided.''"
    by (subst r) simp
  from s1 s2 s3 s4 s5 s6 s7 s8 s9 s10 show ?thesis by blast
qed

lemma those_normalizeItem:
  "JNull \<notin> set items \<Longrightarrow>
     \<exists>rs. those (map normalizeItem items) = Some rs \<and> length rs = length items
          \<and> (\<forall>i < length items. normalizeItem (items ! i) = Some (rs ! i))"
proof (induction items)
  case Nil
  then show ?case by simp
next
  case (Cons a items)
  then obtain rs where rs: "those (map normalizeItem items) = Some rs" "length rs = length items"
    "\<forall>i < length items. normalizeItem (items ! i) = Some (rs ! i)" by auto
  from Cons.prems have "a \<noteq> JNull" by auto
  then obtain r where r: "normalizeItem a = Some r" by (cases a) auto
  show ?case using rs r by (auto simp: nth_Cons split: nat.splits)
qed

text \<open>
  C1, as the code has it. An element with an unknown sentiment keeps it, and the element
  \<^verbatim>\<open>null\<close> makes the normaliser throw.
\<close>

theorem normalizeItem_counterexample:
  "normalizeItem (JObj [(''sentiment'', JStr ''Happy'')]) =
     Some \<lparr> sentiment = JStr ''Happy'', emotion = JStr ''Neutral'',
            emotionEmoji = JStr NEUTRAL_FACE, isSarcastic = False, confidence = 1 / 2,
            keywords_list = [], explanation = JStr ''No explanation provided.'' \<rparr>
   \<and> JStr ''Happy'' \<noteq> JStr ''Neutral''
   \<and> normalizeItem JNull = None"
  by simp

text \<open>
  C1, amended. For a parsed array with no \<^verbatim>\<open>null\<close> element the normaliser returns one
  record for each element, with all seven fields. A sentiment that is missing or falsy
  becomes \<^verbatim>\<open>Neutral\<close>, any other sentiment is kept as it is; a missing emotion becomes
  \<^verbatim>\<open>Neutral\<close>, a missing emoji the placeholder \<open>NEUTRAL_FACE\<close>, the literal of the
  source; the sarcasm flag is the truthiness of
  the value given; a confidence that is not a number becomes one half; keywords that are
  not an array become the empty list; a missing explanation becomes the placeholder.
\<close>

theorem normalizer_defaults:
  assumes "JNull \<notin> set items"
  shows "\<exists>rs. those (map normalizeItem items) = Some rs \<and> length rs = length items \<and>
    (\<forall>i < length items.
     ((getField (items ! i) ''sentiment'' = None \<or> (\<exists>v. getField (items ! i) ''sentiment'' = Some v \<and> \<not> truthy v))
            \<longrightarrow> sentiment (rs ! i) = JStr ''Neutral'')
     \<and> (\<forall>v. getField (items ! i) ''sentiment'' = Some v \<and> truthy v \<longrightarrow> sentiment (rs ! i) = v)
     \<and> (getField (items ! i) ''emotion'' = None \<longrightarrow> emotion (rs ! i) = JStr ''Neutral'')
     \<and> (getField (items ! i) ''emotionEmoji'' = None \<longrightarrow> emotionEmoji (rs ! i) = JStr NEUTRAL_FACE)
     \<and> (isSarcastic (rs ! i) \<longleftrightarrow> (\<exists>v. getField (items ! i) ''isSarcastic'' = Some v \<and> truthy v))
     \<and> ((\<forall>n. getField (items ! i) ''confidence'' \<noteq> Some (JNum n)) \<longrightarrow> confidence (rs ! i) = 1 / 2)
     \<and> (\<forall>n. getField (items ! i) ''confidence'' = Some (JNum n) \<longrightarrow> confidence (rs ! i) = n)
     \<and> ((\<forall>ks. getField (items ! i) ''keywords'' \<noteq> Some (JArr ks)) \<longrightarrow> keywords_list (rs ! i) = [])
     \<and> (\<forall>ks. getField (items ! i) ''keywords'' = Some (JArr ks) \<longrightarrow> keywords_list (rs ! i) = ks)
     \<and> (getField (items ! i) ''explanation'' = None
            \<longrightarrow> explanation (rs ! i) = JStr ''No explanation provided.''))"
proof -
  from those_normalizeItem [OF assms] obtain rs where
    rs: "those (map normalizeItem items) = Some rs" "length rs = length items"
    and each: "\<forall>i < length items. normalizeItem (items ! i) = Some (rs ! i)"
    by blast
  show ?thesis
  proof (intro exI conjI allI impI)
    show "those (map normalizeItem items) = Some rs" by (rule rs(1))
    show "length rs = length items" by (rule rs(2))
  qed (use each normalizeItem_fields in blast)+
qed

theorem normalizer_defaults_witness:
  "JNull \<notin> set [JObj [(''sentiment'', JStr ''Happy'')], JNum 3]
   \<and> (\<exists>rs. those (map normalizeItem [JObj [(''sentiment'', JStr ''Happy'')], JNum 3]) = Some rs
          \<and> length rs = length [JObj [(''sentiment'', JStr ''Happy'')], JNum 3])"
proof -
  have h: "JNull \<notin> set [JObj [(''sentiment'', JStr ''Happy'')], JNum 3]" by simp
  from normalizer_defaults [OF h] obtain rs where
    "those (map normalizeItem [JObj [(''sentiment'', JStr ''Happy'')], JNum 3]) = Some rs"
    "length rs = length [JObj [(''sentiment'', JStr ''Happy'')], JNum 3]"
    by blast
  with h show ?thesis by blast
qed

section \<open>The error classifier\<close>

lemma rule_codes:
  "code (INVALID_KEY st) = AUTH_ERROR" "code RATE_LIMITED = RATE_LIMIT"
  "code OVERLOADED = SERVER_ERROR" "code BAD_REQUEST = INVALID_REQUEST"
  "code MODEL_NOT_FOUND = INVALID_REQUEST" "code (UNEXPECTED st) = UNKNOWN"
  "code SAFETY_BLOCKED = SAFETY_BLOCK" "code EMPTY_RESPONSE = SERVER_ERROR"
  "code MALFORMED_JSON = PARSE_ERROR" "code INVALID_STRUCTURE = PARSE_ERROR"
  "code KEY_MISSING = AUTH_ERROR"
  by (simp_all add: INVALID_KEY_def RATE_LIMITED_def OVERLOADED_def BAD_REQUEST_def
        MODEL_NOT_FOUND_def UNEXPECTED_def SAFETY_BLOCKED_def EMPTY_RESPONSE_def
        MALFORMED_JSON_def INVALID_STRUCTURE_def KEY_MISSING_def)

lemma rule_solutions:
  "solution (INVALID_KEY st) \<noteq> None" "solution RATE_LIMITED \<noteq> None"
  "solution OVERLOADED \<noteq> None" "solution BAD_REQUEST \<noteq> None"
  "solution MODEL_NOT_FOUND \<noteq> None" "solution (UNEXPECTED st) \<noteq> None"
  "solution SAFETY_BLOCKED \<noteq> None" "solution EMPTY_RESPONSE \<noteq> None"
  "solution MALFORMED_JSON \<noteq> None" "solution INVALID_STRUCTURE \<noteq> None"
  by (simp_all add: INVALID_KEY_def RATE_LIMITED_def OVERLOADED_def BAD_REQUEST_def
        MODEL_NOT_FOUND_def UNEXPECTED_def SAFETY_BLOCKED_def EMPTY_RESPONSE_def
        MALFORMED_JSON_def INVALID_STRUCTURE_def)

lemma analyze_rejects:
  "key \<noteq> [] \<Longrightarrow> texts \<noteq> [] \<Longrightarrow>
     snd (analyzeSentimentBatch parse tmsg (Rejects e) texts key) = Inl (classifyError e)"
  by (simp add: analyzeSentimentBatch_def tryBlock_def catchBlock_def)

lemma analyze_no_candidates:
  "key \<noteq> [] \<Longrightarrow> texts \<noteq> [] \<Longrightarrow> candidates r = None \<or> candidates r = Some 0 \<Longrightarrow>
     snd (analyzeSentimentBatch parse tmsg (Resolves r) texts key) = Inl SAFETY_BLOCKED"
  by (auto simp add: analyzeSentimentBatch_def tryBlock_def catchBlock_def)

lemma analyze_empty_text:
  "key \<noteq> [] \<Longrightarrow> texts \<noteq> [] \<Longrightarrow> candidates r = Some (Suc n) \<Longrightarrow>
     jsonText r = None \<or> jsonText r = Some [] \<Longrightarrow>
     snd (analyzeSentimentBatch parse tmsg (Resolves r) texts key) = Inl EMPTY_RESPONSE"
  by (auto simp add: analyzeSentimentBatch_def tryBlock_def catchBlock_def)

lemma analyze_null_element:
  "key \<noteq> [] \<Longrightarrow> texts \<noteq> [] \<Longrightarrow> candidates r = Some (Suc n) \<Longrightarrow>
     jsonText r = Some t \<Longrightarrow> t \<noteq> [] \<Longrightarrow> parse (cleanJsonString t) = Some (JArr items) \<Longrightarrow>
     those (map normalizeItem items) = None \<Longrightarrow>
     snd (analyzeSentimentBatch parse tmsg (Resolves r) texts key)
       = Inl (classifyError \<lparr> err_message = Some tmsg, err_status = None, response_status = None \<rparr>)"
  by (simp add: analyzeSentimentBatch_def tryBlock_def catchBlock_def)

lemma classifier_priority:
  "(let msg = (case err_message e of None \<Rightarrow> [] | Some m \<Rightarrow> m);
        st = statusOf e;
        auth = (includesStr msg ''401'' \<or> includesStr msg ''403'' \<or> includesStr msg ''API key''
                  \<or> st = Some 401 \<or> st = Some 403);
        rate = (includesStr msg ''429'' \<or> includesStr msg ''Quota'' \<or> st = Some 429);
        server = (includesStr msg ''503'' \<or> includesStr msg ''Overloaded'' \<or> st = Some 503);
        bad = (st = Some 400 \<or> includesStr msg ''400'');
        gone = (st = Some 404 \<or> includesStr msg ''404'')
    in (auth \<longrightarrow> classifyError e = INVALID_KEY st)
     \<and> (\<not> auth \<and> rate \<longrightarrow> classifyError e = RATE_LIMITED)
     \<and> (\<not> auth \<and> \<not> rate \<and> server \<longrightarrow> classifyError e = OVERLOADED)
     \<and> (\<not> auth \<and> \<not> rate \<and> \<not> server \<and> bad \<longrightarrow> classifyError e = BAD_REQUEST)
     \<and> (\<not> auth \<and> \<not> rate \<and> \<not> server \<and> \<not> bad \<and> gone \<longrightarrow> classifyError e = MODEL_NOT_FOUND)
     \<and> (\<not> auth \<and> \<not> rate \<and> \<not> server \<and> \<not> bad \<and> \<not> gone \<longrightarrow> classifyError e = UNEXPECTED st))"
proof -
  define msg where "msg = (case err_message e of None \<Rightarrow> [] | Some m \<Rightarrow> m)"
  define st where "st = statusOf e"
  define auth where "auth \<longleftrightarrow> includesStr msg ''401'' \<or> includesStr msg ''403''
     \<or> includesStr msg ''API key'' \<or> st = Some 401 \<or> st = Some 403"
  define rate where "rate \<longleftrightarrow> includesStr msg ''429'' \<or> includesStr msg ''Quota'' \<or> st = Some 429"
  define server where "server \<longleftrightarrow> includesStr msg ''503'' \<or> includesStr msg ''Overloaded''
     \<or> st = Some 503"
  define bad where "bad \<longleftrightarrow> st = Some 400 \<or> includesStr msg ''400''"
  define gone where "gone \<longleftrightarrow> st = Some 404 \<or> includesStr msg ''404''"
  have chain: "classifyError e =
      (if auth then INVALID_KEY st else if rate then RATE_LIMITED else if server then OVERLOADED
       else if bad then BAD_REQUEST else if gone then MODEL_NOT_FOUND else UNEXPECTED st)"
    unfolding classifyError_def Let_def msg_def st_def auth_def rate_def server_def bad_def gone_def
    by (rule refl)
  have "(auth \<longrightarrow> classifyError e = INVALID_KEY st)
     \<and> (\<not> auth \<and> rate \<longrightarrow> classifyError e = RATE_LIMITED)
     \<and> (\<not> auth \<and> \<not> rate \<and> server \<longrightarrow> classifyError e = OVERLOADED)
     \<and> (\<not> auth \<and> \<not> rate \<and> \<not> server \<and> bad \<longrightarrow> classifyError e = BAD_REQUEST)
     \<and> (\<not> auth \<and> \<not> rate \<and> \<not> server \<and> \<not> bad \<and> gone \<longrightarrow> classifyError e = MODEL_NOT_FOUND)
     \<and> (\<not> auth \<and> \<not> rate \<and> \<not> server \<and> \<not> bad \<and> \<not> gone \<longrightarrow> classifyError e = UNEXPECTED st)"
    by (simp add: chain)
  then show ?thesis
    unfolding Let_def msg_def st_def auth_def rate_def server_def bad_def gone_def .
qed


lemma analyze_malformed:
  "key \<noteq> [] \<Longrightarrow> texts \<noteq> [] \<Longrightarrow> candidates r = Some (Suc n) \<Longrightarrow>
     jsonText r = Some t \<Longrightarrow> t \<noteq> [] \<Longrightarrow> parse (cleanJsonString t) = None \<Longrightarrow>
     snd (analyzeSentimentBatch parse tmsg (Resolves r) texts key) = Inl MALFORMED_JSON"
  by (simp add: analyzeSentimentBatch_def tryBlock_def catchBlock_def)

lemma analyze_not_array:
  "key \<noteq> [] \<Longrightarrow> texts \<noteq> [] \<Longrightarrow> candidates r = Some (Suc n) \<Longrightarrow>
     jsonText r = Some t \<Longrightarrow> t \<noteq> [] \<Longrightarrow> parse (cleanJsonString t) = Some v \<Longrightarrow>
     \<forall>items. v \<noteq> JArr items \<Longrightarrow>
     snd (analyzeSentimentBatch parse tmsg (Resolves r) texts key) = Inl INVALID_STRUCTURE"
  by (cases v) (simp_all add: analyzeSentimentBatch_def tryBlock_def catchBlock_def)

lemma response_failures:
  "(key \<noteq> [] \<and> texts \<noteq> [] \<longrightarrow>
        snd (analyzeSentimentBatch parse tmsg (Rejects e) texts key) = Inl (classifyError e)
      \<and> (candidates r = None \<or> candidates r = Some 0 \<longrightarrow>
           snd (analyzeSentimentBatch parse tmsg (Resolves r) texts key) = Inl SAFETY_BLOCKED)
      \<and> (candidates r = Some (Suc n) \<and> (jsonText r = None \<or> jsonText r = Some []) \<longrightarrow>
           snd (analyzeSentimentBatch parse tmsg (Resolves r) texts key) = Inl EMPTY_RESPONSE)
      \<and> (candidates r = Some (Suc n) \<and> jsonText r = Some t \<and> t \<noteq> [] \<longrightarrow>
           (parse (cleanJsonString t) = None \<longrightarrow>
              snd (analyzeSentimentBatch parse tmsg (Resolves r) texts key) = Inl MALFORMED_JSON)
         \<and> (\<forall>v. parse (cleanJsonString t) = Some v \<and> (\<forall>items. v \<noteq> JArr items) \<longrightarrow>
              snd (analyzeSentimentBatch parse tmsg (Resolves r) texts key) = Inl INVALID_STRUCTURE)
         \<and> (\<forall>items. parse (cleanJsonString t) = Some (JArr items)
                  \<and> those (map normalizeItem items) = None \<longrightarrow>
              snd (analyzeSentimentBatch parse tmsg (Resolves r) texts key)
                = Inl (classifyError \<lparr> err_message = Some tmsg, err_status = None,
                                        response_status = None \<rparr>))))"
proof (intro impI conjI allI; (elim conjE)?)
  assume k: "key \<noteq> []" "texts \<noteq> []"
  show "snd (analyzeSentimentBatch parse tmsg (Rejects e) texts key) = Inl (classifyError e)"
    by (rule analyze_rejects [OF k])
  show "snd (analyzeSentimentBatch parse tmsg (Resolves r) texts key) = Inl SAFETY_BLOCKED"
    if "candidates r = None \<or> candidates r = Some 0"
    by (rule analyze_no_candidates [OF k that])
  show "snd (analyzeSentimentBatch parse tmsg (Resolves r) texts key) = Inl EMPTY_RESPONSE"
    if "candidates r = Some (Suc n)" "jsonText r = None \<or> jsonText r = Some []"
    by (rule analyze_empty_text [OF k that])
  show "snd (analyzeSentimentBatch parse tmsg (Resolves r) texts key) = Inl MALFORMED_JSON"
    if "candidates r = Some (Suc n)" "jsonText r = Some t" "t \<noteq> []" "parse (cleanJsonString t) = None"
    using k that by (rule analyze_malformed)
  show "snd (analyzeSentimentBatch parse tmsg (Resolves r) texts key) = Inl INVALID_STRUCTURE"
    if "candidates r = Some (Suc n)" "jsonText r = Some t" "t \<noteq> []"
      "parse (cleanJsonString t) = Some v" "\<forall>items. v \<noteq> JArr items" for v
    using k that by (rule analyze_not_array)
  show "snd (analyzeSentimentBatch parse tmsg (Resolves r) texts key)
          = Inl (classifyError \<lparr> err_message = Some tmsg, err_status = None, response_status = None \<rparr>)"
    if "candidates r = Some (Suc n)" "jsonText r = Some t" "t \<noteq> []"
      "parse (cleanJsonString t) = Some (JArr items)" "those (map normalizeItem items) = None"
    for items
    using k that by (rule analyze_null_element)
qed

text \<open>
  C7, as the code has it. A failure with status 400 and one with status 404 are both of
  the kind \<^verbatim>\<open>INVALID_REQUEST\<close>, and their suggestions differ: the suggestion is not
  fixed by the kind.
\<close>

theorem suggestion_per_kind_counterexample:
  "code (classifyError \<lparr> err_message = None, err_status = Some 400, response_status = None \<rparr>)
     = INVALID_REQUEST
   \<and> code (classifyError \<lparr> err_message = None, err_status = Some 404, response_status = None \<rparr>)
     = INVALID_REQUEST
   \<and> solution (classifyError \<lparr> err_message = None, err_status = Some 400, response_status = None \<rparr>)
     \<noteq> solution (classifyError \<lparr> err_message = None, err_status = Some 404, response_status = None \<rparr>)"
  by (simp add: classifyError_def statusOf_def includesStr_def BAD_REQUEST_def MODEL_NOT_FOUND_def)


text \<open>
  C7, amended. A failure the remote call rejects with is classified by the first rule
  that matches its message and status, in the order: \<^verbatim>\<open>AUTH_ERROR\<close> (401, 403 or
  \<^verbatim>\<open>API key\<close>), \<^verbatim>\<open>RATE_LIMIT\<close> (429 or \<^verbatim>\<open>Quota\<close>), \<^verbatim>\<open>SERVER_ERROR\<close> (503 or
  \<^verbatim>\<open>Overloaded\<close>), \<^verbatim>\<open>INVALID_REQUEST\<close> (400), \<^verbatim>\<open>INVALID_REQUEST\<close> (404, model not found),
  and \<^verbatim>\<open>UNKNOWN\<close> otherwise. A response with no candidate gives \<^verbatim>\<open>SAFETY_BLOCK\<close>, one
  with candidates and an empty text \<^verbatim>\<open>SERVER_ERROR\<close>, one whose text is malformed or not
  an array \<^verbatim>\<open>PARSE_ERROR\<close>, and a \<^verbatim>\<open>TypeError\<close> of the normaliser is classified by its
  message like any other failure. Each rule, not each kind, carries its own fixed
  suggestion, whatever the status of the failure.
\<close>

theorem error_classifier_rules:
  "(let msg = (case err_message e of None \<Rightarrow> [] | Some m \<Rightarrow> m);
        st = statusOf e;
        auth = (includesStr msg ''401'' \<or> includesStr msg ''403'' \<or> includesStr msg ''API key''
                  \<or> st = Some 401 \<or> st = Some 403);
        rate = (includesStr msg ''429'' \<or> includesStr msg ''Quota'' \<or> st = Some 429);
        server = (includesStr msg ''503'' \<or> includesStr msg ''Overloaded'' \<or> st = Some 503);
        bad = (st = Some 400 \<or> includesStr msg ''400'');
        gone = (st = Some 404 \<or> includesStr msg ''404'')
    in (auth \<longrightarrow> classifyError e = INVALID_KEY st)
     \<and> (\<not> auth \<and> rate \<longrightarrow> classifyError e = RATE_LIMITED)
     \<and> (\<not> auth \<and> \<not> rate \<and> server \<longrightarrow> classifyError e = OVERLOADED)
     \<and> (\<not> auth \<and> \<not> rate \<and> \<not> server \<and> bad \<longrightarrow> classifyError e = BAD_REQUEST)
     \<and> (\<not> auth \<and> \<not> rate \<and> \<not> server \<and> \<not> bad \<and> gone \<longrightarrow> classifyError e = MODEL_NOT_FOUND)
     \<and> (\<not> auth \<and> \<not> rate \<and> \<not> server \<and> \<not> bad \<and> \<not> gone \<longrightarrow> classifyError e = UNEXPECTED st))
   \<and> code (INVALID_KEY s) = AUTH_ERROR \<and> code RATE_LIMITED = RATE_LIMIT
   \<and> code OVERLOADED = SERVER_ERROR \<and> code BAD_REQUEST = INVALID_REQUEST
   \<and> code MODEL_NOT_FOUND = INVALID_REQUEST \<and> code (UNEXPECTED s) = UNKNOWN
   \<and> code SAFETY_BLOCKED = SAFETY_BLOCK \<and> code EMPTY_RESPONSE = SERVER_ERROR
   \<and> code MALFORMED_JSON = PARSE_ERROR \<and> code INVALID_STRUCTURE = PARSE_ERROR
   \<and> solution (INVALID_KEY s) = solution (INVALID_KEY None) \<and> solution (INVALID_KEY s) \<noteq> None
   \<and> solution (UNEXPECTED s) = solution (UNEXPECTED None) \<and> solution (UNEXPECTED s) \<noteq> None
   \<and> solution RATE_LIMITED \<noteq> None \<and> solution OVERLOADED \<noteq> None
   \<and> solution BAD_REQUEST \<noteq> None \<and> solution MODEL_NOT_FOUND \<noteq> None
   \<and> solution SAFETY_BLOCKED \<noteq> None \<and> solution EMPTY_RESPONSE \<noteq> None
   \<and> solution MALFORMED_JSON \<noteq> None \<and> solution INVALID_STRUCTURE \<noteq> None
   \<and> (key \<noteq> [] \<and> texts \<noteq> [] \<longrightarrow>
        snd (analyzeSentimentBatch parse tmsg (Rejects e) texts key) = Inl (classifyError e)
      \<and> (candidates r = None \<or> candidates r = Some 0 \<longrightarrow>
           snd (analyzeSentimentBatch parse tmsg (Resolves r) texts key) = Inl SAFETY_BLOCKED)
      \<and> (candidates r = Some (Suc n) \<and> (jsonText r = None \<or> jsonText r = Some []) \<longrightarrow>
           snd (analyzeSentimentBatch parse tmsg (Resolves r) texts key) = Inl EMPTY_RESPONSE)
      \<and> (candidates r = Some (Suc n) \<and> jsonText r = Some t \<and> t \<noteq> [] \<longrightarrow>
           (parse (cleanJsonString t) = None \<longrightarrow>
              snd (analyzeSentimentBatch parse tmsg (Resolves r) texts key) = Inl MALFORMED_JSON)
         \<and> (\<forall>v. parse (cleanJsonString t) = Some v \<and> (\<forall>items. v \<noteq> JArr items) \<longrightarrow>
              snd (analyzeSentimentBatch parse tmsg (Resolves r) texts key) = Inl INVALID_STRUCTURE)
         \<and> (\<forall>items. parse (cleanJsonString t) = Some (JArr items)
                  \<and> those (map normalizeItem items) = None \<longrightarrow>
              snd (analyzeSentimentBatch parse tmsg (Resolves r) texts key)
                = Inl (classifyError \<lparr> err_message = Some tmsg, err_status = None,
                                        response_status = None \<rparr>))))"
  by (intro conjI classifier_priority response_failures)
     (simp_all add: rule_codes rule_solutions, simp_all add: INVALID_KEY_def UNEXPECTED_def)


theorem error_classifier_rules_witness:
  "includesStr ''Quota 401'' ''401''
   \<and> classifyError \<lparr> err_message = Some ''Quota 401'', err_status = Some 0,
                      response_status = Some 503 \<rparr> = INVALID_KEY (Some 503)
   \<and> code (INVALID_KEY (Some 503)) = AUTH_ERROR
   \<and> ''k'' \<noteq> [] \<and> [''good day''] \<noteq> []
   \<and> snd (analyzeSentimentBatch (\<lambda>s. None) []
            (Rejects \<lparr> err_message = Some ''Quota 401'', err_status = Some 0,
                       response_status = Some 503 \<rparr>) [''good day''] ''k'')
        = Inl (INVALID_KEY (Some 503))
   \<and> candidates \<lparr> candidates = Some 0, jsonText = None \<rparr> = Some 0
   \<and> snd (analyzeSentimentBatch (\<lambda>s. None) []
            (Resolves \<lparr> candidates = Some 0, jsonText = None \<rparr>) [''good day''] ''k'')
        = Inl SAFETY_BLOCKED"
proof -
  have inc: "includesStr ''Quota 401'' ''401''"
    by (simp add: includesStr_def sublist_code)
  show ?thesis
    using inc error_classifier_rules
      [of "\<lparr> err_message = Some ''Quota 401'', err_status = Some 0, response_status = Some 503 \<rparr>"
          "Some 503" "''k''" "[''good day'']" "\<lambda>s. None" "[]"
          "\<lparr> candidates = Some 0, jsonText = None \<rparr>" 0 "[]"]
    by (simp add: Let_def statusOf_def)
qed

section \<open>Cleaning the response text\<close>

lemma strip_json_nl: "stripFences (''```json\<newline>'' @ z) = stripFences z"
  by simp

lemma strip_json_end: "stripFences ''```json'' = []"
  by simp

lemma strip_json: "d \<noteq> CHR 0x0A \<Longrightarrow> stripFences (''```json'' @ d # z) = stripFences (d # z)"
  by simp

lemma strip_ticks:
  assumes nj: "\<not> prefix ''json'' z"
  shows "stripFences (''```'' @ z) = stripFences z"
proof -
  let ?s = "CHR 0x60 # CHR 0x60 # CHR 0x60 # z"
  have nQ: "\<not> prefix ''```json'' ?s" using nj by simp
  have "prefix ''```json'' ''```json\<newline>''" by simp
  with nQ have nP: "\<not> prefix ''```json\<newline>'' ?s"
    using prefix_order.trans by blast
  have R: "prefix ''```'' ?s" by simp
  have dr: "drop 2 (CHR 0x60 # CHR 0x60 # z) = z" by simp
  have "stripFences ?s = stripFences z"
    by (subst stripFences.simps(2)) (simp only: nP nQ R if_True if_False dr)
  then show ?thesis by simp
qed

lemma strip_plain:
  assumes n: "\<not> prefix ''```'' (c # z)"
  shows "stripFences (c # z) = c # stripFences z"
proof -
  have "prefix ''```'' ''```json''" and "prefix ''```'' ''```json\<newline>''" by simp_all
  with n have nQ: "\<not> prefix ''```json'' (c # z)" and nP: "\<not> prefix ''```json\<newline>'' (c # z)"
    using prefix_order.trans by blast+
  show ?thesis
    by (subst stripFences.simps(2)) (simp only: n nP nQ if_False)
qed

lemma no_json_append:
  "\<not> prefix ''json'' rest \<Longrightarrow> \<not> prefix ''json'' (rest @ ''\<newline>```'')"
  apply (cases rest, simp)
  apply (rename_tac a r1, case_tac r1, simp)
  apply (rename_tac b r2, case_tac r2, simp)
  apply (rename_tac c r3, case_tac r3, simp)
  apply simp
  done

lemma no_ticks_append:
  "\<not> prefix ''```'' (c # cs) \<Longrightarrow> \<not> prefix ''```'' (c # cs @ ''\<newline>```'')"
  apply (cases cs, simp)
  apply (rename_tac a r1, case_tac r1, simp)
  apply simp
  done

lemma strip_closing_fence:
  "stripFences (body @ ''\<newline>```'') = stripFences body @ ''\<newline>''
   \<or> stripFences (body @ ''\<newline>```'') = stripFences body"
proof (induction body rule: length_induct)
  case (1 body)
  note IH = 1 [rule_format]
  show ?case
  proof (cases body)
    case Nil
    then show ?thesis by simp
  next
    case (Cons c cs)
    consider (P) "prefix ''```json\<newline>'' body"
      | (Q) "\<not> prefix ''```json\<newline>'' body" "prefix ''```json'' body"
      | (R) "\<not> prefix ''```json'' body" "prefix ''```'' body"
      | (N) "\<not> prefix ''```'' body"
      by blast
    then show ?thesis
    proof cases
      case P
      then obtain rest where b: "body = ''```json\<newline>'' @ rest" by (rule prefixE)
      have len: "length rest < length body" by (simp add: b)
      have e1: "stripFences (body @ ''\<newline>```'') = stripFences (rest @ ''\<newline>```'')"
        using strip_json_nl [of "rest @ ''\<newline>```''"] by (simp only: b append_assoc)
      have e2: "stripFences body = stripFences rest"
        using strip_json_nl [of rest] by (simp only: b)
      from IH [OF len] show ?thesis by (simp only: e1 e2)
    next
      case Q
      from Q(2) obtain rest where b: "body = ''```json'' @ rest" by (rule prefixE)
      show ?thesis
      proof (cases rest)
        case Nil
        have "stripFences (''```json'' @ ''\<newline>```'') = []" by simp
        moreover have "stripFences ''```json'' = []" by simp
        ultimately show ?thesis by (simp only: b Nil append_Nil2 simp_thms)
      next
        case (Cons d rest')
        have d: "d \<noteq> CHR 0x0A"
        proof
          assume "d = CHR 0x0A"
          then have "body = ''```json\<newline>'' @ rest'" by (simp add: b Cons)
          then have "prefix ''```json\<newline>'' body" by (rule prefixI)
          with Q(1) show False by contradiction
        qed
        have len: "length rest < length body" by (simp add: b)
        have e1: "stripFences (body @ ''\<newline>```'') = stripFences (rest @ ''\<newline>```'')"
          using strip_json [OF d, of "rest' @ ''\<newline>```''"]
          by (simp only: b Cons append_assoc append_Cons)
        have e2: "stripFences body = stripFences rest"
          using strip_json [OF d, of rest'] by (simp only: b Cons)
        from IH [OF len] show ?thesis by (simp only: e1 e2)
      qed
    next
      case R
      from R(2) obtain rest where b: "body = ''```'' @ rest" by (rule prefixE)
      have nj: "\<not> prefix ''json'' rest"
      proof
        assume "prefix ''json'' rest"
        then obtain r where "rest = ''json'' @ r" by (rule prefixE)
        then have "body = ''```json'' @ r" by (simp add: b)
        then have "prefix ''```json'' body" by (rule prefixI)
        with R(1) show False by contradiction
      qed
      have len: "length rest < length body" by (simp add: b)
      have e1: "stripFences (body @ ''\<newline>```'') = stripFences (rest @ ''\<newline>```'')"
        using strip_ticks [OF no_json_append [OF nj]] by (simp only: b append_assoc)
      have e2: "stripFences body = stripFences rest"
        using strip_ticks [OF nj] by (simp only: b)
      from IH [OF len] show ?thesis by (simp only: e1 e2)
    next
      case N
      from N have n: "\<not> prefix ''```'' (c # cs)" unfolding Cons .
      have len: "length cs < length body" by (simp add: Cons)
      have e1: "stripFences (body @ ''\<newline>```'') = c # stripFences (cs @ ''\<newline>```'')"
        using strip_plain [OF no_ticks_append [OF n]] by (simp only: Cons append_Cons)
      have e2: "stripFences body = c # stripFences cs"
        using strip_plain [OF n] by (simp only: Cons)
      from IH [OF len] show ?thesis by (simp only: e1 e2 append_Cons list.inject simp_thms)
    qed
  qed
qed

lemma white_space_shape: "w \<in> set WHITE_SPACE \<Longrightarrow> w \<noteq> [] \<and> CHR 0x0A \<notin> set (tl w)"
  by (auto simp: WHITE_SPACE_def)

lemma lf_leading: "find (\<lambda>w. prefix w (CHR 0x0A # t)) WHITE_SPACE = Some [CHR 0x0A]"
  by (simp add: WHITE_SPACE_def)

lemma lf_trailing: "find (\<lambda>w. prefix w (CHR 0x0A # t)) (map rev WHITE_SPACE) = Some [CHR 0x0A]"
  by (simp add: WHITE_SPACE_def)

lemma strip_lf_leading: "stripLeading WHITE_SPACE (CHR 0x0A # t) = stripLeading WHITE_SPACE t"
  by (simp add: lf_leading)

lemma strip_lf_trailing:
  "stripLeading (map rev WHITE_SPACE) (CHR 0x0A # t) = stripLeading (map rev WHITE_SPACE) t"
  by (simp add: lf_trailing)

lemma prefix_snoc_other:
  assumes "w \<noteq> []" and "x \<notin> set (tl w)" and "s \<noteq> []"
  shows "prefix w (s @ [x]) \<longleftrightarrow> prefix w s"
proof
  assume "prefix w (s @ [x])"
  then consider "w = s @ [x]" | "prefix w s" by (auto simp: prefix_snoc)
  then show "prefix w s"
  proof cases
    case 1
    with assms(3) have "x \<in> set (tl w)" by (cases s) auto
    with assms(2) show ?thesis by contradiction
  qed
next
  assume "prefix w s"
  then show "prefix w (s @ [x])" by (rule prefix_prefix)
qed

lemma stripLeading_snoc:
  assumes ws: "\<forall>w \<in> set ws. w \<noteq> [] \<and> x \<notin> set (tl w)"
  shows "stripLeading ws (s @ [x]) =
     (if stripLeading ws s = [] then stripLeading ws [x] else stripLeading ws s @ [x])"
proof (induction s rule: length_induct)
  case (1 s)
  note IH = 1 [rule_format]
  show ?case
  proof (cases s)
    case Nil
    then show ?thesis by simp
  next
    case (Cons c cs)
    have same: "find (\<lambda>w. prefix w ((c # cs) @ [x])) ws = find (\<lambda>w. prefix w (c # cs)) ws"
    proof (rule find_cong [OF refl])
      fix w assume "w \<in> set ws"
      with ws have "w \<noteq> []" "x \<notin> set (tl w)" by auto
      then show "prefix w ((c # cs) @ [x]) = prefix w (c # cs)"
        by (rule prefix_snoc_other) simp
    qed
    show ?thesis
    proof (cases "find (\<lambda>w. prefix w (c # cs)) ws")
      case None
      with same have "stripLeading ws ((c # cs) @ [x]) = (c # cs) @ [x]"
        and "stripLeading ws (c # cs) = c # cs"
        by simp_all
      then show ?thesis unfolding Cons by simp
    next
      case (Some w)
      then have "prefix w (c # cs)" by (auto simp: find_Some_iff)
      then have "length w \<le> Suc (length cs)" by (auto dest: prefix_length_le)
      then have d: "drop (length w - 1) (cs @ [x]) = drop (length w - 1) cs @ [x]"
        by simp
      have len: "length (drop (length w - 1) cs) < length s" by (simp add: Cons)
      have l: "stripLeading ws ((c # cs) @ [x]) = stripLeading ws (drop (length w - 1) (cs @ [x]))"
        by (simp only: append_Cons stripLeading.simps(2) same [unfolded append_Cons] Some option.case)
      have r: "stripLeading ws (c # cs) = stripLeading ws (drop (length w - 1) cs)"
        by (simp only: stripLeading.simps(2) Some option.case)
      from IH [OF len] show ?thesis unfolding Cons l d r .
    qed
  qed
qed

lemma trim_append_nl: "trim (s @ ''\<newline>'') = trim s"
proof -
  have e: "stripLeading WHITE_SPACE [CHR 0x0A] = []"
    using strip_lf_leading [of "[]"] by simp
  have "stripLeading WHITE_SPACE (s @ [CHR 0x0A]) =
     (if stripLeading WHITE_SPACE s = [] then stripLeading WHITE_SPACE [CHR 0x0A]
      else stripLeading WHITE_SPACE s @ [CHR 0x0A])"
    by (rule stripLeading_snoc) (use white_space_shape in blast)
  then have "stripLeading WHITE_SPACE (s @ [CHR 0x0A]) =
     (if stripLeading WHITE_SPACE s = [] then [] else stripLeading WHITE_SPACE s @ [CHR 0x0A])"
    by (simp only: e)
  then show ?thesis
    by (simp add: trim_def strip_lf_trailing del: stripLeading.simps)
qed

lemma trim_nl_Cons: "trim (CHR 0x0A # s) = trim s"
  by (simp only: trim_def strip_lf_leading)

lemma clean_cong:
  "trim (stripFences a) = trim (stripFences b) \<Longrightarrow> cleanJsonString a = cleanJsonString b"
  by (simp only: cleanJsonString_def)

lemma trim_strip_closing:
  "trim (stripFences (body @ ''\<newline>```'')) = trim (stripFences body)"
proof -
  from strip_closing_fence [of body]
  consider (a) "stripFences (body @ ''\<newline>```'') = stripFences body @ ''\<newline>''"
    | (b) "stripFences (body @ ''\<newline>```'') = stripFences body"
    by blast
  then show ?thesis
  proof cases
    case a
    show ?thesis by (simp only: a trim_append_nl)
  next
    case b
    show ?thesis by (simp only: b)
  qed
qed

lemma fenced_json:
  "cleanJsonString (''```json\<newline>'' @ body @ ''\<newline>```'') = cleanJsonString body"
proof (rule clean_cong)
  have "stripFences (''```json\<newline>'' @ body @ ''\<newline>```'') = stripFences (body @ ''\<newline>```'')"
    by (rule strip_json_nl)
  then show "trim (stripFences (''```json\<newline>'' @ body @ ''\<newline>```'')) = trim (stripFences body)"
    by (simp only: trim_strip_closing)
qed

lemma fenced_plain:
  "cleanJsonString (''```\<newline>'' @ body @ ''\<newline>```'') = cleanJsonString body"
proof (rule clean_cong)
  have "\<not> prefix ''json'' (CHR 0x0A # body @ ''\<newline>```'')" by simp
  then have "stripFences (''```'' @ CHR 0x0A # body @ ''\<newline>```'')
               = stripFences (CHR 0x0A # body @ ''\<newline>```'')"
    by (rule strip_ticks)
  moreover have "\<not> prefix ''```'' (CHR 0x0A # body @ ''\<newline>```'')" by simp
  then have "stripFences (CHR 0x0A # body @ ''\<newline>```'')
               = CHR 0x0A # stripFences (body @ ''\<newline>```'')"
    by (rule strip_plain)
  moreover have "''```\<newline>'' @ body @ ''\<newline>```'' = ''```'' @ CHR 0x0A # body @ ''\<newline>```''"
    by simp
  ultimately have "stripFences (''```\<newline>'' @ body @ ''\<newline>```'')
          = CHR 0x0A # stripFences (body @ ''\<newline>```'')"
    by (simp only:)
  then show "trim (stripFences (''```\<newline>'' @ body @ ''\<newline>```'')) = trim (stripFences body)"
    by (simp only: trim_nl_Cons trim_strip_closing)
qed

lemma indexOf_first:
  "i < length s \<Longrightarrow> s ! i = x \<Longrightarrow> \<forall>k<i. s ! k \<noteq> x \<Longrightarrow> indexOf s x = Some i"
proof (induction s arbitrary: i)
  case Nil
  then show ?case by simp
next
  case (Cons y ys)
  show ?case
  proof (cases i)
    case 0
    with Cons.prems show ?thesis by simp
  next
    case (Suc i')
    with Cons.prems have "y \<noteq> x" by auto
    moreover from Cons.prems Suc have "indexOf ys x = Some i'"
      by (intro Cons.IH) auto
    ultimately show ?thesis by (simp add: Suc)
  qed
qed

lemma lastIndexOf_last:
  assumes "j < length s" and "s ! j = x" and "\<forall>k. j < k \<and> k < length s \<longrightarrow> s ! k \<noteq> x"
  shows "lastIndexOf s x = Some j"
proof -
  let ?m = "length s - 1 - j"
  have m: "?m < length (rev s)" using assms(1) by simp
  have at: "rev s ! ?m = x" using assms(1,2) by (simp add: rev_nth)
  have before: "\<forall>k<?m. rev s ! k \<noteq> x"
  proof (intro allI impI)
    fix k assume k: "k < ?m"
    then have "rev s ! k = s ! (length s - Suc k)" by (simp add: rev_nth)
    moreover from k assms(1) have "j < length s - Suc k" "length s - Suc k < length s" by arith+
    ultimately show "rev s ! k \<noteq> x" using assms(3) by simp
  qed
  from indexOf_first [OF m at before] assms(1) show ?thesis
    by (simp add: lastIndexOf_def)
qed

lemma indexOf_None: "x \<notin> set s \<Longrightarrow> indexOf s x = None"
  by (induction s) auto

lemma cleanJsonString_brackets:
  assumes "i \<le> j" and "j < length (trim (stripFences body))"
    and "trim (stripFences body) ! i = CHR ''[''"
    and "\<forall>k<i. trim (stripFences body) ! k \<noteq> CHR ''[''"
    and "trim (stripFences body) ! j = CHR '']''"
    and "\<forall>k. j < k \<and> k < length (trim (stripFences body)) \<longrightarrow> trim (stripFences body) ! k \<noteq> CHR '']''"
  shows "cleanJsonString body = take (Suc j - i) (drop i (trim (stripFences body)))"
proof -
  let ?c = "trim (stripFences body)"
  from assms(1,2) have i: "i < length ?c" by simp
  have a: "indexOf ?c (CHR ''['') = Some i" by (rule indexOf_first [OF i assms(3,4)])
  have b: "lastIndexOf ?c (CHR '']'') = Some j" by (rule lastIndexOf_last [OF assms(2,5,6)])
  from assms(1,2) have "substring ?c i (j + 1) = take (Suc j - i) (drop i ?c)"
    by (simp add: substring_def Let_def min_def max_def)
  then show ?thesis by (simp add: cleanJsonString_def a b)
qed

lemma cleanJsonString_no_brackets:
  assumes "CHR ''['' \<notin> set (trim (stripFences body)) \<or> CHR '']'' \<notin> set (trim (stripFences body))"
  shows "cleanJsonString body = trim (stripFences body)"
proof -
  let ?c = "trim (stripFences body)"
  from assms consider "indexOf ?c (CHR ''['') = None" | "lastIndexOf ?c (CHR '']'') = None"
    using indexOf_None [of "CHR ''[''" ?c] indexOf_None [of "CHR '']''" "rev ?c"]
    by (auto simp: lastIndexOf_def)
  then show ?thesis
    by cases (simp_all add: cleanJsonString_def Let_def split: option.split)
qed

text \<open>
  C5. The cleaning step deletes the code fences and keeps the text from the first opening
  bracket to the last closing bracket, so a body wrapped in a fence (three backticks,
  \<^verbatim>\<open>json\<close> or nothing, a newline, the body, a newline, three backticks) is cleaned to
  the same string as the body alone, for every body. Without an opening or a closing
  bracket the trimmed text is kept whole.
\<close>

theorem fenced_equals_unfenced:
  "cleanJsonString (''```json\<newline>'' @ body @ ''\<newline>```'') = cleanJsonString body
   \<and> cleanJsonString (''```\<newline>'' @ body @ ''\<newline>```'') = cleanJsonString body
   \<and> (CHR ''['' \<notin> set (trim (stripFences body)) \<or> CHR '']'' \<notin> set (trim (stripFences body))
        \<longrightarrow> cleanJsonString body = trim (stripFences body))
   \<and> (\<forall>i j. i \<le> j \<and> j < length (trim (stripFences body))
          \<and> trim (stripFences body) ! i = CHR ''[''
          \<and> (\<forall>k<i. trim (stripFences body) ! k \<noteq> CHR ''['')
          \<and> trim (stripFences body) ! j = CHR '']''
          \<and> (\<forall>k. j < k \<and> k < length (trim (stripFences body))
                 \<longrightarrow> trim (stripFences body) ! k \<noteq> CHR '']'')
        \<longrightarrow> cleanJsonString body = take (Suc j - i) (drop i (trim (stripFences body))))"
  using fenced_json [of body] fenced_plain [of body] cleanJsonString_no_brackets [of body]
    cleanJsonString_brackets [of _ _ body]
  by blast

theorem fenced_equals_unfenced_witness:
  "cleanJsonString (''```json\<newline>'' @ ''Here: [1, 2] ok'' @ ''\<newline>```'')
     = cleanJsonString ''Here: [1, 2] ok''
   \<and> trim (stripFences ''Here: [1, 2] ok'') = ''Here: [1, 2] ok''
   \<and> (6::nat) \<le> 11 \<and> 11 < length ''Here: [1, 2] ok''
   \<and> ''Here: [1, 2] ok'' ! 6 = CHR ''[''
   \<and> ''Here: [1, 2] ok'' ! 11 = CHR '']''
   \<and> cleanJsonString ''Here: [1, 2] ok'' = ''[1, 2]''"
proof -
  have t: "trim (stripFences ''Here: [1, 2] ok'') = ''Here: [1, 2] ok''"
    by (simp add: trim_def WHITE_SPACE_def)
  have h1: "\<forall>k<6. ''Here: [1, 2] ok'' ! k \<noteq> CHR ''[''"
    by (simp add: eval_nat_numeral less_Suc_eq nth_Cons' all_conj_distrib)
  have h2: "\<forall>k. 11 < k \<and> k < length ''Here: [1, 2] ok'' \<longrightarrow> ''Here: [1, 2] ok'' ! k \<noteq> CHR '']''"
  proof (intro allI impI)
    fix k :: nat assume "11 < k \<and> k < length ''Here: [1, 2] ok''"
    then have "k = 12 \<or> k = 13 \<or> k = 14" by auto
    then show "''Here: [1, 2] ok'' ! k \<noteq> CHR '']''" by auto
  qed
  have h3: "''Here: [1, 2] ok'' ! 6 = CHR ''[''" "''Here: [1, 2] ok'' ! 11 = CHR '']''"
    by simp_all
  note inst = fenced_equals_unfenced [of "''Here: [1, 2] ok''", unfolded t]
  note fenced = inst [THEN conjunct1]
  note between = inst [THEN conjunct2, THEN conjunct2, THEN conjunct2, rule_format, of 6 11]
  have "cleanJsonString ''Here: [1, 2] ok'' = take (Suc 11 - 6) (drop 6 ''Here: [1, 2] ok'')"
    by (rule between) (intro conjI h1 h2 h3, simp_all)
  then have r: "cleanJsonString ''Here: [1, 2] ok'' = ''[1, 2]''" by simp
  from fenced t h3 r show ?thesis by (intro conjI) simp_all
qed


section \<open>The batch loop\<close>

lemma slice_groupAt: "slice texts (m * CHUNK_SIZE) (m * CHUNK_SIZE + CHUNK_SIZE) = groupAt texts m"
  by (simp add: groupAt_def)

lemma groupAt_length: "length (groupAt texts m) = min CHUNK_SIZE (length texts - m * CHUNK_SIZE)"
  by (simp add: groupAt_def slice_def min_def)

lemma groupAt_nonempty: "m * CHUNK_SIZE < length texts \<Longrightarrow> groupAt texts m \<noteq> []"
  using groupAt_length [of texts m] by (auto simp: CHUNK_SIZE_def)

lemma analyze_requests:
  "key \<noteq> [] \<Longrightarrow> chunk \<noteq> [] \<Longrightarrow>
     fst (analyzeSentimentBatch parse tmsg r chunk key) = [chunk]"
  by (simp add: analyzeSentimentBatch_def)

lemma onChunkResults_fields:
  "requests (onChunkResults c rs st) = requests st"
  "apiKey (onChunkResults c rs st) = apiKey st"
  "total (batchProgress (onChunkResults c rs st)) = total (batchProgress st)"
  "errors (batchProgress (onChunkResults c rs st)) = errors (batchProgress st)"
  "processed (batchProgress (onChunkResults c rs st))
     = min (processed (batchProgress st) + length c) (total (batchProgress st))"
  by (simp_all add: onChunkResults_def setBatchProgress_def Let_def)

lemma onChunkError_fields:
  "requests (onChunkError i c st) = requests st"
  "apiKey (onChunkError i c st) = apiKey st"
  "total (batchProgress (onChunkError i c st)) = total (batchProgress st)"
  "errors (batchProgress (onChunkError i c st)) = errors (batchProgress st) + length c"
  "processed (batchProgress (onChunkError i c st)) = processed (batchProgress st)"
  by (simp_all add: onChunkError_def setBatchProgress_def showToast_def Let_def)

lemma loop_done:
  "\<not> m * CHUNK_SIZE < length texts \<Longrightarrow>
     batchLoop parse tmsg remote texts key (m * CHUNK_SIZE) st = (st, False, None)"
  by (subst batchLoop.simps) simp

lemma div_chunk: "m * CHUNK_SIZE div CHUNK_SIZE = m"
  by (simp add: CHUNK_SIZE_def)

lemma suc_chunk: "m * CHUNK_SIZE + CHUNK_SIZE = Suc m * CHUNK_SIZE"
  by simp

lemma loop_success:
  assumes "m * CHUNK_SIZE < length texts" and "key \<noteq> []"
    and "groupOutcome parse tmsg remote texts key m = Inr rs"
  shows "batchLoop parse tmsg remote texts key (m * CHUNK_SIZE) st
     = batchLoop parse tmsg remote texts key (Suc m * CHUNK_SIZE)
         (onChunkResults (groupAt texts m) rs (st\<lparr> requests := requests st @ [groupAt texts m] \<rparr>))"
proof -
  have f: "fst (analyzeSentimentBatch parse tmsg (remote m) (groupAt texts m) key) = [groupAt texts m]"
    by (rule analyze_requests [OF assms(2) groupAt_nonempty [OF assms(1)]])
  have s: "snd (analyzeSentimentBatch parse tmsg (remote m) (groupAt texts m) key) = Inr rs"
    using assms(3) by (simp add: groupOutcome_def)
  show ?thesis
    unfolding suc_chunk [symmetric]
    by (subst batchLoop.simps) (simp add: assms(1) slice_groupAt div_chunk f s Let_def)
qed

lemma loop_failure:
  assumes "m * CHUNK_SIZE < length texts" and "key \<noteq> []"
    and "groupOutcome parse tmsg remote texts key m = Inl err" and "code err \<noteq> AUTH_ERROR"
  shows "batchLoop parse tmsg remote texts key (m * CHUNK_SIZE) st
     = batchLoop parse tmsg remote texts key (Suc m * CHUNK_SIZE)
         (onChunkError (m * CHUNK_SIZE) (groupAt texts m)
            (st\<lparr> requests := requests st @ [groupAt texts m] \<rparr>))"
proof -
  have f: "fst (analyzeSentimentBatch parse tmsg (remote m) (groupAt texts m) key) = [groupAt texts m]"
    by (rule analyze_requests [OF assms(2) groupAt_nonempty [OF assms(1)]])
  have s: "snd (analyzeSentimentBatch parse tmsg (remote m) (groupAt texts m) key) = Inl err"
    using assms(3) by (simp add: groupOutcome_def)
  show ?thesis
    unfolding suc_chunk [symmetric]
    by (subst batchLoop.simps) (simp add: assms(1,4) slice_groupAt div_chunk f s Let_def)
qed

lemma loop_auth:
  assumes "m * CHUNK_SIZE < length texts" and "key \<noteq> []"
    and "groupOutcome parse tmsg remote texts key m = Inl err" and "code err = AUTH_ERROR"
  shows "batchLoop parse tmsg remote texts key (m * CHUNK_SIZE) st
     = (st\<lparr> requests := requests st @ [groupAt texts m], apiKey := [], isApiKeyModalOpen := True \<rparr>,
        True, Some err)"
proof -
  have f: "fst (analyzeSentimentBatch parse tmsg (remote m) (groupAt texts m) key) = [groupAt texts m]"
    by (rule analyze_requests [OF assms(2) groupAt_nonempty [OF assms(1)]])
  have s: "snd (analyzeSentimentBatch parse tmsg (remote m) (groupAt texts m) key) = Inl err"
    using assms(3) by (simp add: groupOutcome_def)
  show ?thesis
    by (subst batchLoop.simps)
       (simp add: assms(1,4) slice_groupAt div_chunk f s Let_def)
qed


text \<open>No critical error from group m on: every group is sent.\<close>

lemma loop_all_sent:
  assumes key: "key \<noteq> []"
    and ok: "\<forall>k. m \<le> k \<and> k * CHUNK_SIZE < length texts
               \<longrightarrow> \<not> authFailsAt parse tmsg remote texts key k"
  shows "\<exists>st'. batchLoop parse tmsg remote texts key (m * CHUNK_SIZE) st = (st', False, None)
     \<and> requests st' = requests st
          @ map (groupAt texts) [m ..< (length texts + (CHUNK_SIZE - 1)) div CHUNK_SIZE]"
  using ok
proof (induction "length texts - m * CHUNK_SIZE" arbitrary: m st rule: less_induct)
  case less
  let ?n = "(length texts + (CHUNK_SIZE - 1)) div CHUNK_SIZE"
  show ?case
  proof (cases "m * CHUNK_SIZE < length texts")
    case False
    then have "?n \<le> m" by (simp add: CHUNK_SIZE_def)
    with False show ?thesis by (simp add: loop_done)
  next
    case True
    then have mn: "m < ?n" by (simp add: CHUNK_SIZE_def)
    from True have dec: "length texts - Suc m * CHUNK_SIZE < length texts - m * CHUNK_SIZE"
      by (simp add: CHUNK_SIZE_def)
    have ok': "\<forall>k. Suc m \<le> k \<and> k * CHUNK_SIZE < length texts
                 \<longrightarrow> \<not> authFailsAt parse tmsg remote texts key k"
      using less.prems by auto
    from less.prems True have na: "\<not> authFailsAt parse tmsg remote texts key m" by simp
    have up: "[m ..< ?n] = m # [Suc m ..< ?n]" using mn by (rule upt_conv_Cons)
    show ?thesis
    proof (cases "groupOutcome parse tmsg remote texts key m")
      case (Inr rs)
      let ?st1 = "onChunkResults (groupAt texts m) rs (st\<lparr> requests := requests st @ [groupAt texts m] \<rparr>)"
      from less.hyps [OF dec ok', of ?st1] obtain st' where
        "batchLoop parse tmsg remote texts key (Suc m * CHUNK_SIZE) ?st1 = (st', False, None)"
        "requests st' = requests ?st1 @ map (groupAt texts) [Suc m ..< ?n]"
        by blast
      then show ?thesis
        by (simp only: loop_success [OF True key Inr] up onChunkResults_fields) simp
    next
      case (Inl err)
      with na have c: "code err \<noteq> AUTH_ERROR" by (simp add: authFailsAt_def)
      let ?st1 = "onChunkError (m * CHUNK_SIZE) (groupAt texts m)
                    (st\<lparr> requests := requests st @ [groupAt texts m] \<rparr>)"
      from less.hyps [OF dec ok', of ?st1] obtain st' where
        "batchLoop parse tmsg remote texts key (Suc m * CHUNK_SIZE) ?st1 = (st', False, None)"
        "requests st' = requests ?st1 @ map (groupAt texts) [Suc m ..< ?n]"
        by blast
      then show ?thesis
        by (simp only: loop_failure [OF True key Inl c] up onChunkError_fields) simp
    qed
  qed
qed


lemma onChunkResults_modal:
  "isApiKeyModalOpen (onChunkResults c rs st) = isApiKeyModalOpen st"
  by (simp add: onChunkResults_def setBatchProgress_def Let_def)

text \<open>The first critical error is at group k: the loop stops there.\<close>

lemma loop_until_auth:
  assumes key: "key \<noteq> []"
    and k: "k * CHUNK_SIZE < length texts"
    and auth: "authFailsAt parse tmsg remote texts key k"
  shows "m \<le> k \<Longrightarrow>
     \<forall>j. m \<le> j \<and> j < k \<longrightarrow> \<not> authFailsAt parse tmsg remote texts key j \<Longrightarrow>
     total (batchProgress st) = length texts \<Longrightarrow>
     processed (batchProgress st) \<le> m * CHUNK_SIZE \<Longrightarrow>
     \<exists>st' err. batchLoop parse tmsg remote texts key (m * CHUNK_SIZE) st = (st', True, Some err)
       \<and> groupOutcome parse tmsg remote texts key k = Inl err \<and> code err = AUTH_ERROR
       \<and> requests st' = requests st @ map (groupAt texts) [m ..< Suc k]
       \<and> apiKey st' = [] \<and> isApiKeyModalOpen st'
       \<and> processed (batchProgress st') = processed (batchProgress st)
            + CHUNK_SIZE * length (filter (succeedsAt parse tmsg remote texts key) [m ..< k])"
proof (induction "k - m" arbitrary: m st)
  case 0
  then have mk: "m = k" by simp
  from auth obtain err where e: "groupOutcome parse tmsg remote texts key k = Inl err"
    "code err = AUTH_ERROR"
    by (auto simp: authFailsAt_def split: sum.splits)
  show ?case
    unfolding mk by (simp add: loop_auth [OF k key e] e)
next
  case (Suc d)
  then have mk: "m < k" and d: "d = k - Suc m" by simp_all
  from mk k have m: "m * CHUNK_SIZE < length texts" and full: "Suc m * CHUNK_SIZE \<le> length texts"
    by (auto simp: CHUNK_SIZE_def)
  from full have len: "length (groupAt texts m) = CHUNK_SIZE"
    by (simp add: groupAt_length min_def)
  from Suc.prems(2) mk have na: "\<not> authFailsAt parse tmsg remote texts key m" by simp
  have rest: "\<forall>j. Suc m \<le> j \<and> j < k \<longrightarrow> \<not> authFailsAt parse tmsg remote texts key j"
    using Suc.prems(2) by auto
  have up: "[m ..< Suc k] = m # [Suc m ..< Suc k]" "[m ..< k] = m # [Suc m ..< k]"
    using mk by (simp_all add: upt_conv_Cons)
  from mk have smk: "Suc m \<le> k" by simp
  show ?case
  proof (cases "groupOutcome parse tmsg remote texts key m")
    case (Inr rs)
    let ?st1 = "onChunkResults (groupAt texts m) rs (st\<lparr> requests := requests st @ [groupAt texts m] \<rparr>)"
    have s: "succeedsAt parse tmsg remote texts key m" by (simp add: succeedsAt_def Inr)
    have p: "processed (batchProgress ?st1) = processed (batchProgress st) + CHUNK_SIZE"
      using Suc.prems(3,4) full by (simp add: onChunkResults_fields len)
    have t: "total (batchProgress ?st1) = length texts"
      using Suc.prems(3) by (simp add: onChunkResults_fields)
    have p': "processed (batchProgress ?st1) \<le> Suc m * CHUNK_SIZE"
      using p Suc.prems(4) by simp
    from Suc.hyps(1) [OF d smk rest t p'] obtain st' err where
      "batchLoop parse tmsg remote texts key (Suc m * CHUNK_SIZE) ?st1 = (st', True, Some err)"
      "groupOutcome parse tmsg remote texts key k = Inl err" "code err = AUTH_ERROR"
      "requests st' = requests ?st1 @ map (groupAt texts) [Suc m ..< Suc k]"
      "apiKey st' = []" "isApiKeyModalOpen st'"
      "processed (batchProgress st') = processed (batchProgress ?st1)
         + CHUNK_SIZE * length (filter (succeedsAt parse tmsg remote texts key) [Suc m ..< k])"
      by blast
    moreover have "requests ?st1 = requests st @ [groupAt texts m]"
      by (simp add: onChunkResults_fields)
    ultimately show ?thesis
      unfolding loop_success [OF m key Inr] by (simp add: up p s smk less_imp_le [OF mk])
  next
    case (Inl err0)
    with na have c: "code err0 \<noteq> AUTH_ERROR" by (simp add: authFailsAt_def)
    let ?st1 = "onChunkError (m * CHUNK_SIZE) (groupAt texts m)
                  (st\<lparr> requests := requests st @ [groupAt texts m] \<rparr>)"
    have s: "\<not> succeedsAt parse tmsg remote texts key m" by (simp add: succeedsAt_def Inl)
    have p: "processed (batchProgress ?st1) = processed (batchProgress st)"
      by (simp add: onChunkError_fields)
    have t: "total (batchProgress ?st1) = length texts"
      using Suc.prems(3) by (simp add: onChunkError_fields)
    have p': "processed (batchProgress ?st1) \<le> Suc m * CHUNK_SIZE"
      using p Suc.prems(4) by simp
    from Suc.hyps(1) [OF d smk rest t p'] obtain st' err where
      "batchLoop parse tmsg remote texts key (Suc m * CHUNK_SIZE) ?st1 = (st', True, Some err)"
      "groupOutcome parse tmsg remote texts key k = Inl err" "code err = AUTH_ERROR"
      "requests st' = requests ?st1 @ map (groupAt texts) [Suc m ..< Suc k]"
      "apiKey st' = []" "isApiKeyModalOpen st'"
      "processed (batchProgress st') = processed (batchProgress ?st1)
         + CHUNK_SIZE * length (filter (succeedsAt parse tmsg remote texts key) [Suc m ..< k])"
      by blast
    moreover have "requests ?st1 = requests st @ [groupAt texts m]"
      by (simp add: onChunkError_fields)
    ultimately show ?thesis
      unfolding loop_failure [OF m key Inl c] by (simp add: up p s smk less_imp_le [OF mk])
  qed
qed

lemma beginCycle_fields:
  "requests (beginCycle texts st) = requests st"
  "apiKey (beginCycle texts st) = apiKey st"
  "total (batchProgress (beginCycle texts st)) = length texts"
  "processed (batchProgress (beginCycle texts st)) = 0"
  "errors (batchProgress (beginCycle texts st)) = 0"
  by (simp_all add: beginCycle_def setBatchProgress_def)

lemma endCycle_fields:
  "requests (endCycle st) = requests st"
  "apiKey (endCycle st) = apiKey st"
  "isApiKeyModalOpen (endCycle st) = isApiKeyModalOpen st"
  "errorDetails (endCycle st) = errorDetails st"
  "toast (endCycle st) = toast st"
  "total (batchProgress (endCycle st)) = total (batchProgress st)"
  "processed (batchProgress (endCycle st)) = processed (batchProgress st)"
  "errors (batchProgress (endCycle st)) = errors (batchProgress st)"
  by (simp_all add: endCycle_def setBatchProgress_def)

lemma processBatch_critical:
  assumes "apiKey st \<noteq> []"
    and "batchLoop parse tmsg remote texts (apiKey st) 0 (beginCycle texts st) = (st3, a, Some err)"
  shows "processBatch parse tmsg remote texts st =
     endCycle (showToast ''Authentication Failed'' error
       (st3\<lparr> errorDetails := Some
          \<lparr> title = ''Authentication Failed'', detail_message = message err,
            detail_solution = solution err, detail_code = Some (codeName (code err)),
            detail_status = status err \<rparr> \<rparr>))"
  using assms by (simp add: processBatch_def)

lemma processBatch_requests:
  assumes "apiKey st \<noteq> []"
  shows "requests (processBatch parse tmsg remote texts st)
     = requests (fst (batchLoop parse tmsg remote texts (apiKey st) 0 (beginCycle texts st)))"
proof -
  obtain st3 a c where l: "batchLoop parse tmsg remote texts (apiKey st) 0 (beginCycle texts st) = (st3, a, c)"
    by (cases "batchLoop parse tmsg remote texts (apiKey st) 0 (beginCycle texts st)") auto
  show ?thesis
    using assms
    by (simp add: processBatch_def l endCycle_fields showToast_def Let_def split: option.split)
qed

lemma concat_groups: "concat (map (groupAt xs) [0 ..< n]) = take (n * CHUNK_SIZE) xs"
proof (induction n)
  case 0
  show ?case by simp
next
  case (Suc n)
  have "take (n * CHUNK_SIZE) xs @ groupAt xs n = take (n * CHUNK_SIZE + CHUNK_SIZE) xs"
    by (simp add: groupAt_def slice_def take_add)
  with Suc show ?case by (simp add: add.commute)
qed

lemma three_groups: "[0 ..< 3] = [0, 1, 2 :: nat]"
  by (simp add: eval_nat_numeral)

lemma groups_partition:
  fixes xs :: "string list"
  defines "n \<equiv> (length xs + (CHUNK_SIZE - 1)) div CHUNK_SIZE"
  defines "gs \<equiv> map (groupAt xs) [0 ..< n]"
  shows "concat gs = xs"
    and "length gs = (length xs + 7) div 8"
    and "\<forall>k. Suc k < length gs \<longrightarrow> length (gs ! k) = 8"
    and "gs \<noteq> [] \<longrightarrow> 0 < length (last gs) \<and> length (last gs) \<le> 8"
    and "length xs = 20 \<longrightarrow> map length gs = [8, 8, 4]"
proof -
  have n: "n = (length xs + 7) div 8" by (simp add: n_def CHUNK_SIZE_def)
  have "length xs \<le> n * CHUNK_SIZE" by (simp add: n CHUNK_SIZE_def)
  then show "concat gs = xs" by (simp add: gs_def concat_groups)
  show "length gs = (length xs + 7) div 8" by (simp add: gs_def n)
  show "\<forall>k. Suc k < length gs \<longrightarrow> length (gs ! k) = 8"
  proof (intro allI impI)
    fix k assume "Suc k < length gs"
    then have k: "Suc k < n" by (simp add: gs_def)
    then have "Suc k * 8 \<le> length xs" by (simp add: n)
    with k show "length (gs ! k) = 8"
      by (simp add: gs_def groupAt_length CHUNK_SIZE_def min_def)
  qed
  show "gs \<noteq> [] \<longrightarrow> 0 < length (last gs) \<and> length (last gs) \<le> 8"
  proof
    assume "gs \<noteq> []"
    then have pos: "0 < n" by (simp add: gs_def)
    then have "last gs = groupAt xs (n - 1)"
      by (simp add: gs_def last_map)
    moreover from pos have "(n - 1) * 8 < length xs" by (simp add: n)
    ultimately show "0 < length (last gs) \<and> length (last gs) \<le> 8"
      by (simp add: groupAt_length CHUNK_SIZE_def min_def)
  qed
  show "length xs = 20 \<longrightarrow> map length gs = [8, 8, 4]"
  proof
    assume l: "length xs = 20"
    then have "n = 3" by (simp add: n)
    then show "map length gs = [8, 8, 4]"
      by (simp add: gs_def three_groups groupAt_length CHUNK_SIZE_def l)
  qed
qed

lemma classify_fault: "classifyError SERVER_FAULT = UNEXPECTED (Some 500)"
  by (simp add: classifyError_def SERVER_FAULT_def statusOf_def includesStr_def)

lemma fault_outcome:
  "key \<noteq> [] \<Longrightarrow> k * CHUNK_SIZE < length texts \<Longrightarrow>
     groupOutcome parse tmsg (\<lambda>k. Rejects SERVER_FAULT) texts key k = Inl (UNEXPECTED (Some 500))"
  using groupAt_nonempty [of k texts]
  by (simp add: groupOutcome_def analyzeSentimentBatch_def tryBlock_def catchBlock_def classify_fault)

lemma onChunkResults_log:
  "progressLog (onChunkResults c rs st) = progressLog st @ [batchProgress (onChunkResults c rs st)]"
  by (simp add: onChunkResults_def setBatchProgress_def Let_def)

lemma onChunkError_log:
  "progressLog (onChunkError i c st) = progressLog st @ [batchProgress (onChunkError i c st)]"
  by (simp add: onChunkError_def setBatchProgress_def showToast_def Let_def)

lemma loop_progress:
  assumes key: "key \<noteq> []"
  shows "total (batchProgress st) = length texts \<Longrightarrow>
     processed (batchProgress st) + errors (batchProgress st) \<le> min (m * CHUNK_SIZE) (length texts) \<Longrightarrow>
     \<exists>st' a c new. batchLoop parse tmsg remote texts key (m * CHUNK_SIZE) st = (st', a, c)
       \<and> total (batchProgress st') = length texts
       \<and> processed (batchProgress st') + errors (batchProgress st') \<le> length texts
       \<and> progressLog st' = progressLog st @ new
       \<and> (\<forall>p \<in> set new. total p = length texts \<and> processed p + errors p \<le> length texts)"
proof (induction "length texts - m * CHUNK_SIZE" arbitrary: m st rule: less_induct)
  case less
  show ?case
  proof (cases "m * CHUNK_SIZE < length texts")
    case False
    with less.prems show ?thesis
      by (intro exI [of _ st] exI [of _ False] exI [of _ None] exI [of _ "[]"])
         (simp add: loop_done)
  next
    case True
    then have dec: "length texts - Suc m * CHUNK_SIZE < length texts - m * CHUNK_SIZE"
      by (simp add: CHUNK_SIZE_def)
    have len: "m * CHUNK_SIZE + length (groupAt texts m) \<le> min (Suc m * CHUNK_SIZE) (length texts)"
      using True by (auto simp: groupAt_length min_def CHUNK_SIZE_def)
    show ?thesis
    proof (cases "groupOutcome parse tmsg remote texts key m")
      case (Inr rs)
      let ?st1 = "onChunkResults (groupAt texts m) rs (st\<lparr> requests := requests st @ [groupAt texts m] \<rparr>)"
      have t: "total (batchProgress ?st1) = length texts"
        using less.prems(1) by (simp add: onChunkResults_fields)
      have p: "processed (batchProgress ?st1) + errors (batchProgress ?st1)
                 \<le> min (Suc m * CHUNK_SIZE) (length texts)"
        using less.prems len by (simp add: onChunkResults_fields min_def split: if_splits)
      have lg: "progressLog ?st1 = progressLog st @ [batchProgress ?st1]"
        by (simp add: onChunkResults_log)
      from less.hyps [OF dec t p] obtain st' a c new where
        "batchLoop parse tmsg remote texts key (Suc m * CHUNK_SIZE) ?st1 = (st', a, c)"
        "total (batchProgress st') = length texts"
        "processed (batchProgress st') + errors (batchProgress st') \<le> length texts"
        "progressLog st' = progressLog ?st1 @ new"
        "\<forall>p \<in> set new. total p = length texts \<and> processed p + errors p \<le> length texts"
        by blast
      with t p lg show ?thesis
        unfolding loop_success [OF True key Inr]
        by (intro exI [of _ st'] exI [of _ a] exI [of _ c] exI [of _ "batchProgress ?st1 # new"]) simp
    next
      case (Inl err)
      show ?thesis
      proof (cases "code err = AUTH_ERROR")
        case True
        from less.prems show ?thesis
          unfolding loop_auth [OF \<open>m * CHUNK_SIZE < length texts\<close> key Inl True] by auto
      next
        case False
        let ?st1 = "onChunkError (m * CHUNK_SIZE) (groupAt texts m)
                      (st\<lparr> requests := requests st @ [groupAt texts m] \<rparr>)"
        have t: "total (batchProgress ?st1) = length texts"
          using less.prems(1) by (simp add: onChunkError_fields)
        have p: "processed (batchProgress ?st1) + errors (batchProgress ?st1)
                   \<le> min (Suc m * CHUNK_SIZE) (length texts)"
          using less.prems len by (simp add: onChunkError_fields min_def split: if_splits)
        have lg: "progressLog ?st1 = progressLog st @ [batchProgress ?st1]"
          by (simp add: onChunkError_log)
        from less.hyps [OF dec t p] obtain st' a c new where
          "batchLoop parse tmsg remote texts key (Suc m * CHUNK_SIZE) ?st1 = (st', a, c)"
          "total (batchProgress st') = length texts"
          "processed (batchProgress st') + errors (batchProgress st') \<le> length texts"
          "progressLog st' = progressLog ?st1 @ new"
          "\<forall>p \<in> set new. total p = length texts \<and> processed p + errors p \<le> length texts"
          by blast
        with t p lg show ?thesis
          unfolding loop_failure [OF True key Inl False]
          by (intro exI [of _ st'] exI [of _ a] exI [of _ c] exI [of _ "batchProgress ?st1 # new"]) simp
      qed
    qed
  qed
qed

text \<open>
  What does hold of the counters: every value \<^verbatim>\<open>setBatchProgress\<close> stores during a cycle,
  the last of which is the value the cycle ends with, has \<open>processed \<le> total\<close>, and even
  \<open>processed + errors \<le> total\<close>.
\<close>

lemma progress_within_total:
  assumes "apiKey st \<noteq> []"
  shows "\<exists>new. progressLog (processBatch parse tmsg remote texts st) = progressLog st @ new
     \<and> new \<noteq> []
     \<and> batchProgress (processBatch parse tmsg remote texts st) = last new
     \<and> (\<forall>p \<in> set new. processed p \<le> total p \<and> processed p + errors p \<le> total p)"
proof -
  let ?b = "beginCycle texts st"
  have t: "total (batchProgress ?b) = length texts"
    and p: "processed (batchProgress ?b) + errors (batchProgress ?b) \<le> min (0 * CHUNK_SIZE) (length texts)"
    and lg: "progressLog ?b = progressLog st @ [batchProgress ?b]"
    by (simp_all add: beginCycle_def setBatchProgress_def)
  from loop_progress [OF assms t p, where parse = parse and tmsg = tmsg and remote = remote]
  obtain st' a c new where
    l: "batchLoop parse tmsg remote texts (apiKey st) 0 ?b = (st', a, c)"
    and t': "total (batchProgress st') = length texts"
    and p': "processed (batchProgress st') + errors (batchProgress st') \<le> length texts"
    and lg': "progressLog st' = progressLog ?b @ new"
    and all: "\<forall>p \<in> set new. total p = length texts \<and> processed p + errors p \<le> length texts"
    by auto
  let ?e = "(batchProgress st')\<lparr> isProcessing := False \<rparr>"
  have fin: "batchProgress (processBatch parse tmsg remote texts st) = ?e"
    and flog: "progressLog (processBatch parse tmsg remote texts st) = progressLog st' @ [?e]"
    using assms
    by (auto simp: processBatch_def l Let_def endCycle_def setBatchProgress_def showToast_def
          split: option.split)
  show ?thesis
  proof (intro exI [of _ "batchProgress ?b # new @ [?e]"] conjI)
    show "progressLog (processBatch parse tmsg remote texts st)
            = progressLog st @ batchProgress ?b # new @ [?e]"
      by (simp add: flog lg' lg)
    show "batchProgress ?b # new @ [?e] \<noteq> []" by simp
    show "batchProgress (processBatch parse tmsg remote texts st) = last (batchProgress ?b # new @ [?e])"
      by (simp add: fin)
    show "\<forall>p \<in> set (batchProgress ?b # new @ [?e]).
            processed p \<le> total p \<and> processed p + errors p \<le> total p"
      using all t p t' p' by auto
  qed
qed

text \<open>
  C2, at one input. One text, a credential, and a remote call that fails with status 500:
  the cycle ends with one error counted and nothing processed, so the error counter
  exceeds the processed counter, which the progress display subtracts it from.
\<close>

theorem errors_exceed_processed:
  "batchProgress (processBatch parse tmsg (\<lambda>k. Rejects SERVER_FAULT) [''a''] (initialState ''k''))
     = \<lparr> total = 1, processed = 0, errors = 1, isProcessing = False \<rparr>
   \<and> \<not> errors (batchProgress (processBatch parse tmsg (\<lambda>k. Rejects SERVER_FAULT) [''a'']
                                  (initialState ''k'')))
        \<le> processed (batchProgress (processBatch parse tmsg (\<lambda>k. Rejects SERVER_FAULT) [''a'']
                                        (initialState ''k'')))"
proof -
  have o: "groupOutcome parse tmsg (\<lambda>k. Rejects SERVER_FAULT) [''a''] ''k'' 0
             = Inl (UNEXPECTED (Some 500))"
    by (rule fault_outcome) (simp_all add: CHUNK_SIZE_def)
  have c: "code (UNEXPECTED (Some 500)) \<noteq> AUTH_ERROR" by (simp add: UNEXPECTED_def)
  have g: "groupAt [''a''] 0 = [''a'']" by (simp add: groupAt_def slice_def CHUNK_SIZE_def)
  have l: "batchLoop parse tmsg (\<lambda>k. Rejects SERVER_FAULT) [''a''] ''k'' 0 st
         = (onChunkError 0 [''a''] (st\<lparr> requests := requests st @ [[''a'']] \<rparr>), False, None)" for st
    using loop_failure [of 0 "[''a'']" "''k''" parse tmsg "\<lambda>k. Rejects SERVER_FAULT" _ st, OF _ _ o c]
      loop_done [of 1 "[''a'']" parse tmsg "\<lambda>k. Rejects SERVER_FAULT" "''k''"]
    by (simp add: g CHUNK_SIZE_def)
  have "batchProgress (processBatch parse tmsg (\<lambda>k. Rejects SERVER_FAULT) [''a''] (initialState ''k''))
     = \<lparr> total = 1, processed = 0, errors = 1, isProcessing = False \<rparr>"
    by (simp add: processBatch_def initialState_def l beginCycle_def endCycle_def onChunkError_def
          setBatchProgress_def showToast_def Let_def)
  then show ?thesis by simp
qed

text \<open>
  C4. With a credential and no authentication failure, the groups \<^verbatim>\<open>processBatch\<close> sends
  to the remote service, in the order it sends them, are consecutive pieces of the list
  of texts: put together they give the list back, there are \<open>\<lceil>n / 8\<rceil>\<close> of them, every
  group but the last has exactly 8 texts and the last has between 1 and 8. Twenty texts
  give three groups of 8, 8 and 4.
\<close>

theorem groups_of_eight:
  assumes "apiKey st \<noteq> []"
    and "\<forall>k. k * 8 < length texts \<longrightarrow> \<not> authFailsAt parse tmsg remote texts (apiKey st) k"
  shows "\<exists>gs. requests (processBatch parse tmsg remote texts st) = requests st @ gs
      \<and> concat gs = texts
      \<and> length gs = (length texts + 7) div 8
      \<and> (\<forall>k. Suc k < length gs \<longrightarrow> length (gs ! k) = 8)
      \<and> (gs \<noteq> [] \<longrightarrow> 0 < length (last gs) \<and> length (last gs) \<le> 8)
      \<and> (length texts = 20 \<longrightarrow> map length gs = [8, 8, 4])"
proof -
  let ?gs = "map (groupAt texts) [0 ..< (length texts + (CHUNK_SIZE - 1)) div CHUNK_SIZE]"
  have ok: "\<forall>k. 0 \<le> k \<and> k * CHUNK_SIZE < length texts
              \<longrightarrow> \<not> authFailsAt parse tmsg remote texts (apiKey st) k"
    using assms(2) by (simp add: CHUNK_SIZE_def)
  from loop_all_sent [OF assms(1) ok, of "beginCycle texts st"] obtain st' where
    "batchLoop parse tmsg remote texts (apiKey st) 0 (beginCycle texts st) = (st', False, None)"
    "requests st' = requests (beginCycle texts st) @ ?gs"
    by auto
  then have req: "requests (processBatch parse tmsg remote texts st) = requests st @ ?gs"
    by (simp add: processBatch_requests [OF assms(1)] beginCycle_fields)
  show ?thesis
  proof (intro exI [of _ ?gs] conjI)
    show "requests (processBatch parse tmsg remote texts st) = requests st @ ?gs" by (rule req)
  qed (rule groups_partition)+
qed

text \<open>
  C3. When group \<open>k\<close> is the first whose submission fails with an error of code
  \<^verbatim>\<open>AUTH_ERROR\<close>, the groups sent are exactly the groups 0 to \<open>k\<close>, so none after \<open>k\<close>;
  the processed counter ends at 8 for each group before \<open>k\<close> that succeeded and advances
  no further; the stored credential is cleared and the key dialog opened; and the error
  panel reports \<^verbatim>\<open>Authentication Failed\<close> with the message, suggestion and status of that
  error.
\<close>

theorem auth_error_halts:
  assumes "apiKey st \<noteq> []"
    and "k * 8 < length texts"
    and "authFailsAt parse tmsg remote texts (apiKey st) k"
    and "\<forall>j<k. \<not> authFailsAt parse tmsg remote texts (apiKey st) j"
  shows "\<exists>err. groupOutcome parse tmsg remote texts (apiKey st) k = Inl err \<and> code err = AUTH_ERROR
     \<and> requests (processBatch parse tmsg remote texts st)
          = requests st @ map (groupAt texts) [0 ..< Suc k]
     \<and> processed (batchProgress (processBatch parse tmsg remote texts st))
          = 8 * length (filter (succeedsAt parse tmsg remote texts (apiKey st)) [0 ..< k])
     \<and> apiKey (processBatch parse tmsg remote texts st) = []
     \<and> isApiKeyModalOpen (processBatch parse tmsg remote texts st)
     \<and> errorDetails (processBatch parse tmsg remote texts st) = Some
          \<lparr> title = ''Authentication Failed'', detail_message = message err,
            detail_solution = solution err, detail_code = Some ''AUTH_ERROR'',
            detail_status = status err \<rparr>
     \<and> toast (processBatch parse tmsg remote texts st) = Some (''Authentication Failed'', error)"
proof -
  have k: "k * CHUNK_SIZE < length texts" using assms(2) by (simp add: CHUNK_SIZE_def)
  have before: "\<forall>j. 0 \<le> j \<and> j < k \<longrightarrow> \<not> authFailsAt parse tmsg remote texts (apiKey st) j"
    using assms(4) by simp
  have t: "total (batchProgress (beginCycle texts st)) = length texts"
    and p: "processed (batchProgress (beginCycle texts st)) \<le> 0 * CHUNK_SIZE"
    by (simp_all add: beginCycle_fields)
  from loop_until_auth [OF assms(1) k assms(3) _ before t p] obtain st' err where
    l: "batchLoop parse tmsg remote texts (apiKey st) 0 (beginCycle texts st) = (st', True, Some err)"
    and e: "groupOutcome parse tmsg remote texts (apiKey st) k = Inl err" "code err = AUTH_ERROR"
    and r: "requests st' = requests (beginCycle texts st) @ map (groupAt texts) [0 ..< Suc k]"
    and a: "apiKey st' = []" "isApiKeyModalOpen st'"
    and c: "processed (batchProgress st') = processed (batchProgress (beginCycle texts st))
         + CHUNK_SIZE * length (filter (succeedsAt parse tmsg remote texts (apiKey st)) [0 ..< k])"
    by auto
  note pb = processBatch_critical [OF assms(1) l]
  show ?thesis
  proof (intro exI [of _ err] conjI)
    show "groupOutcome parse tmsg remote texts (apiKey st) k = Inl err" by (rule e(1))
    show "code err = AUTH_ERROR" by (rule e(2))
    show "requests (processBatch parse tmsg remote texts st) = requests st @ map (groupAt texts) [0 ..< Suc k]"
      unfolding pb using r by (simp add: endCycle_fields showToast_def beginCycle_fields)
    show "processed (batchProgress (processBatch parse tmsg remote texts st))
          = 8 * length (filter (succeedsAt parse tmsg remote texts (apiKey st)) [0 ..< k])"
      unfolding pb using c by (simp add: endCycle_fields showToast_def beginCycle_fields CHUNK_SIZE_def)
    show "apiKey (processBatch parse tmsg remote texts st) = []"
      unfolding pb using a by (simp add: endCycle_fields showToast_def)
    show "isApiKeyModalOpen (processBatch parse tmsg remote texts st)"
      unfolding pb using a by (simp add: endCycle_fields showToast_def)
    show "errorDetails (processBatch parse tmsg remote texts st) = Some
          \<lparr> title = ''Authentication Failed'', detail_message = message err,
            detail_solution = solution err, detail_code = Some ''AUTH_ERROR'',
            detail_status = status err \<rparr>"
      unfolding pb using e(2) by (simp add: endCycle_fields showToast_def)
    show "toast (processBatch parse tmsg remote texts st) = Some (''Authentication Failed'', error)"
      unfolding pb by (simp add: endCycle_fields showToast_def)
  qed
qed

lemma classify_unauthorized: "classifyError UNAUTHORIZED = INVALID_KEY (Some 401)"
  by (simp add: classifyError_def UNAUTHORIZED_def statusOf_def includesStr_def)

theorem groups_of_eight_witness:
  "apiKey (initialState ''k'') \<noteq> []
   \<and> length TWENTY_TEXTS = 20
   \<and> (\<exists>gs. requests (processBatch (\<lambda>s. None) [] (\<lambda>k. Rejects SERVER_FAULT) TWENTY_TEXTS
                        (initialState ''k'')) = requests (initialState ''k'') @ gs
          \<and> concat gs = TWENTY_TEXTS \<and> map length gs = [8, 8, 4])"
proof -
  have key: "apiKey (initialState ''k'') \<noteq> []" by (simp add: initialState_def)
  have ok: "\<forall>k. k * 8 < length TWENTY_TEXTS \<longrightarrow>
         \<not> authFailsAt (\<lambda>s. None) [] (\<lambda>k. Rejects SERVER_FAULT) TWENTY_TEXTS
             (apiKey (initialState ''k'')) k"
    using key by (simp add: authFailsAt_def fault_outcome CHUNK_SIZE_def UNEXPECTED_def)
  have len: "length TWENTY_TEXTS = 20" by (simp add: TWENTY_TEXTS_def)
  have "\<exists>gs. requests (processBatch (\<lambda>s. None) [] (\<lambda>k. Rejects SERVER_FAULT) TWENTY_TEXTS
                        (initialState ''k'')) = requests (initialState ''k'') @ gs
          \<and> concat gs = TWENTY_TEXTS \<and> map length gs = [8, 8, 4]"
    using groups_of_eight [OF key ok] len by auto
  with key len show ?thesis by (intro conjI)
qed

theorem auth_error_halts_witness:
  "apiKey (initialState ''k'') \<noteq> [] \<and> 1 * 8 < length TWENTY_TEXTS
   \<and> authFailsAt parseEmptyArray [] secondGroupUnauthorized TWENTY_TEXTS (apiKey (initialState ''k'')) 1
   \<and> \<not> authFailsAt parseEmptyArray [] secondGroupUnauthorized TWENTY_TEXTS
         (apiKey (initialState ''k'')) 0
   \<and> requests (processBatch parseEmptyArray [] secondGroupUnauthorized TWENTY_TEXTS (initialState ''k''))
       = [groupAt TWENTY_TEXTS 0, groupAt TWENTY_TEXTS 1]
   \<and> processed (batchProgress
        (processBatch parseEmptyArray [] secondGroupUnauthorized TWENTY_TEXTS (initialState ''k''))) = 8
   \<and> apiKey (processBatch parseEmptyArray [] secondGroupUnauthorized TWENTY_TEXTS (initialState ''k'')) = []"
proof -
  have key: "apiKey (initialState ''k'') \<noteq> []" and kv: "apiKey (initialState ''k'') = ''k''"
    by (simp_all add: initialState_def)
  have len: "1 * 8 < length TWENTY_TEXTS" by (simp add: TWENTY_TEXTS_def)
  have g0: "groupAt TWENTY_TEXTS 0 \<noteq> []" and g1: "groupAt TWENTY_TEXTS (Suc 0) \<noteq> []"
    by (rule groupAt_nonempty, simp add: TWENTY_TEXTS_def CHUNK_SIZE_def)+
  have o1: "groupOutcome parseEmptyArray [] secondGroupUnauthorized TWENTY_TEXTS ''k'' (Suc 0)
              = Inl (INVALID_KEY (Some 401))"
    using g1
    by (simp add: groupOutcome_def analyzeSentimentBatch_def tryBlock_def catchBlock_def
          secondGroupUnauthorized_def classify_unauthorized)
  have o0: "groupOutcome parseEmptyArray [] secondGroupUnauthorized TWENTY_TEXTS ''k'' 0 = Inr []"
    using g0
    by (simp add: groupOutcome_def analyzeSentimentBatch_def tryBlock_def
          secondGroupUnauthorized_def parseEmptyArray_def)
  have a1: "authFailsAt parseEmptyArray [] secondGroupUnauthorized TWENTY_TEXTS
              (apiKey (initialState ''k'')) 1"
    by (simp add: authFailsAt_def kv o1 INVALID_KEY_def)
  have a0: "\<forall>j<1. \<not> authFailsAt parseEmptyArray [] secondGroupUnauthorized TWENTY_TEXTS
                  (apiKey (initialState ''k'')) j"
    by (simp add: authFailsAt_def kv o0)
  have s0: "succeedsAt parseEmptyArray [] secondGroupUnauthorized TWENTY_TEXTS
              (apiKey (initialState ''k'')) 0"
    by (simp add: succeedsAt_def kv o0)
  have r0: "requests (initialState ''k'') = []" by (simp add: initialState_def)
  from auth_error_halts [OF key len a1 a0]
  have "requests (processBatch parseEmptyArray [] secondGroupUnauthorized TWENTY_TEXTS (initialState ''k''))
       = [groupAt TWENTY_TEXTS 0, groupAt TWENTY_TEXTS 1]"
    and "processed (batchProgress
        (processBatch parseEmptyArray [] secondGroupUnauthorized TWENTY_TEXTS (initialState ''k''))) = 8"
    and "apiKey (processBatch parseEmptyArray [] secondGroupUnauthorized TWENTY_TEXTS (initialState ''k'')) = []"
    by (auto simp: r0 s0)
  with key len a1 a0 show ?thesis by (intro conjI) simp_all
qed

section \<open>File import\<close>










section \<open>CSV export\<close>
















end
